theory Spec2Isabelle
  imports Main "HOL-Library.Sublist"
begin

section \<open>Handles and resolver identifiers (filemodel.go, FileBackedFSHandle)\<close>

text \<open>Go strings are byte sequences; they are modelled as \<open>string\<close> (a list of 8-bit
  characters).\<close>

definition RPackResolver :: string where "RPackResolver = ''rpack''"
definition TempResolver :: string where "TempResolver = ''temp''"
definition MapResolver :: string where "MapResolver = ''map''"
definition TargetResolver :: string where "TargetResolver = ''target''"

record FSHandle =
  absPath :: string
  friendlyPath :: string
  resolver :: string
  indirectTargetPath :: string

definition NewFileBackedFSHandle :: "string \<Rightarrow> string \<Rightarrow> string \<Rightarrow> string \<Rightarrow> FSHandle" where
  "NewFileBackedFSHandle a f r i =
     \<lparr>absPath = a, friendlyPath = f, resolver = r, indirectTargetPath = i\<rparr>"

datatype FSAccessType = FSAccessTypeRead | FSAccessTypeWrite | FSAccessTypeStat | FSAccessTypeReadDir

text \<open>Errors are values. Messages built with \<open>%s\<close> are kept as the exact text; messages
  that quote a name with \<open>%q\<close> keep the name as the constructor's argument.\<close>

datatype error =
    PathNotRelative string
  | PathNotLocal string
  | MapInputNotFound string
  | MapPathNotDirectory string
  | MapPathNotRelative string
  | MapPathNotLocal string
  | CouldNotResolve string
  | AccessDenied string
  | CouldNotRead string
  | CouldNotWrite string
  | ErrorAccessingFile string
  | ErrorReadDir string
  | PathDoesNotExist string
  | PathIsNotADirectory string
  | LuaArgError nat string
  | IsDirectory string
  | FileDoesNotExist string
  | LuaArgErrorOf nat error

section \<open>The access-control hook (RPackAccessControlFSHook)\<close>

definition acl_Read :: "FSHandle \<Rightarrow> error option" where
  "acl_Read h =
     (if resolver h = TargetResolver
      then Some (AccessDenied (''Not allowed to read '' @ friendlyPath h @
             '' (no access to read from target directory, use 'rpack:' instead)''))
      else None)"

definition acl_Write :: "FSHandle \<Rightarrow> error option" where
  "acl_Write h =
     (if resolver h = RPackResolver
      then Some (AccessDenied (''Not allowed to write '' @ friendlyPath h @ '', use `temp` instead''))
      else if resolver h = MapResolver
      then Some (AccessDenied (''Not allowed to write '' @ friendlyPath h @ '', use `target` instead''))
      else None)"

definition acl_ReadDir :: "FSHandle \<Rightarrow> error option" where
  "acl_ReadDir h =
     (if resolver h = TargetResolver
      then Some (AccessDenied (''Not allowed to readdir '' @ friendlyPath h @
             '' (no access to read from target directory, use 'rpack:' instead)''))
      else None)"

definition acl_Stat :: "FSHandle \<Rightarrow> error option" where
  "acl_Stat h =
     (if resolver h = TargetResolver
      then Some (AccessDenied (''Not allowed to stat '' @ friendlyPath h @
             '' (no access to read from target directory, use 'rpack:' instead)''))
      else None)"


section \<open>Path functions of the Go library (path/filepath and strings, Unix)\<close>

text \<open>The program calls \<open>filepath.Clean\<close>, \<open>IsAbs\<close>, \<open>IsLocal\<close>, \<open>Join\<close>, \<open>Dir\<close>
  and \<open>strings.Cut\<close>, \<open>CutPrefix\<close>. They belong to the Go standard library; the
  definitions below follow their documented behaviour on Unix, where the separator is the
  slash and there is no volume name.\<close>

text \<open>\<open>strings.Split(s, "/")\<close>: the elements between slashes, never an empty list.\<close>

fun splitSep :: "string \<Rightarrow> string list" where
  "splitSep [] = [[]]"
| "splitSep (c # cs) =
     (if c = CHR ''/'' then [] # splitSep cs
      else (case splitSep cs of [] \<Rightarrow> [[c]] | p # ps \<Rightarrow> (c # p) # ps))"

text \<open>\<open>strings.Join(elems, "/")\<close>.\<close>

fun joinSep :: "string list \<Rightarrow> string" where
  "joinSep [] = []"
| "joinSep [p] = p"
| "joinSep (p # q # ps) = p @ CHR ''/'' # joinSep (q # ps)"

text \<open>The loop of \<open>Clean\<close> over the path elements. The output buffer is kept as a stack of
  elements, innermost first. An empty element and \<open>.\<close> are dropped; \<open>..\<close> removes the
  element before it when there is one that is not itself \<open>..\<close>, is dropped at the root of
  a rooted path, and is kept otherwise.\<close>

fun cleanElems :: "bool \<Rightarrow> string list \<Rightarrow> string list \<Rightarrow> string list" where
  "cleanElems rooted out [] = rev out"
| "cleanElems rooted out (e # es) =
     (if e = [] \<or> e = ''.'' then cleanElems rooted out es
      else if e = ''..'' then
        (if out \<noteq> [] \<and> hd out \<noteq> ''..'' then cleanElems rooted (tl out) es
         else if \<not> rooted then cleanElems rooted (''..'' # out) es
         else cleanElems rooted out es)
      else cleanElems rooted (e # out) es)"

definition IsAbs :: "string \<Rightarrow> bool" where
  "IsAbs path = (case path of [] \<Rightarrow> False | c # _ \<Rightarrow> c = CHR ''/'')"

definition Clean :: "string \<Rightarrow> string" where
  "Clean path =
     (if path = [] then ''.''
      else let out = cleanElems (IsAbs path) [] (splitSep path)
           in if IsAbs path then CHR ''/'' # joinSep out
              else if out = [] then ''.'' else joinSep out)"

text \<open>\<open>IsLocal\<close>: not absolute, not empty, and, once cleaned when it has a \<open>.\<close> or \<open>..\<close>
  element, neither \<open>..\<close> nor below \<open>..\<close>.\<close>

definition IsLocal :: "string \<Rightarrow> bool" where
  "IsLocal path =
     (if IsAbs path \<or> path = [] then False
      else let hasDots = (''.'' \<in> set (splitSep path) \<or> ''..'' \<in> set (splitSep path));
               p = (if hasDots then Clean path else path)
           in \<not> (p = ''..'' \<or> prefix ''../'' p))"

text \<open>\<open>Join\<close> ignores leading empty elements, joins the rest with slashes and cleans the
  result; with nothing left it returns the empty string.\<close>

definition Join :: "string list \<Rightarrow> string" where
  "Join elems =
     (case dropWhile (\<lambda>e. e = []) elems of [] \<Rightarrow> [] | es \<Rightarrow> Clean (joinSep es))"

text \<open>\<open>Dir\<close>: everything up to the last slash, cleaned.\<close>

definition Dir :: "string \<Rightarrow> string" where
  "Dir path = Clean (rev (dropWhile (\<lambda>c. c \<noteq> CHR ''/'') (rev path)))"

definition CutPrefix :: "string \<Rightarrow> string \<Rightarrow> string \<times> bool" where
  "CutPrefix s pre = (if prefix pre s then (drop (length pre) s, True) else (s, False))"

text \<open>\<open>strings.Cut\<close> with a one-byte separator: the text before the first separator, the
  text after it, and whether the separator was found.\<close>

definition Cut :: "string \<Rightarrow> char \<Rightarrow> string \<times> string \<times> bool" where
  "Cut s sep = (takeWhile (\<lambda>c. c \<noteq> sep) s, drop 1 (dropWhile (\<lambda>c. c \<noteq> sep) s), sep \<in> set s)"

section \<open>Resolvers (FileBackedFSResolver, MapFSResolver, BaseFS.resolve)\<close>

datatype RPackInputType = RPackInputTypeFile | RPackInputTypeDirectory

record RPackResolvedInput =
  Name :: string
  UserPath :: string
  ResolvedPath :: string
  Type :: RPackInputType

datatype FSResolver =
    FileBackedFSResolver string string string
  | MapFSResolver string string "RPackResolvedInput list"

definition MapFSResolverPrefix :: string where "MapFSResolverPrefix = ''map:''"

text \<open>\<open>Resolve\<close> returns \<open>(handle, matched, err)\<close>. \<open>None\<close> stands for \<open>matched = false\<close>;
  \<open>Some (Inl e)\<close> for a matched name that is refused; \<open>Some (Inr h)\<close> for a handle.\<close>

fun Resolve :: "FSResolver \<Rightarrow> string \<Rightarrow> (error + FSHandle) option" where
  "Resolve (FileBackedFSResolver name pre baseDir) n =
     (case CutPrefix n pre of
        (sfx, False) \<Rightarrow> None
      | (sfx, True) \<Rightarrow>
          (let cleanPath = Clean sfx in
           if IsAbs cleanPath then Some (Inl (PathNotRelative n))
           else if \<not> IsLocal cleanPath then Some (Inl (PathNotLocal n))
           else Some (Inr (NewFileBackedFSHandle (Join [baseDir, cleanPath]) (pre @ cleanPath)
                             name cleanPath))))"
| "Resolve (MapFSResolver name pre resolvedInputs) n =
     (case CutPrefix n pre of
        (sfx, False) \<Rightarrow> None
      | (sfx, True) \<Rightarrow>
          (let cleanPath = Clean sfx in
           if IsAbs cleanPath then Some (Inl (PathNotRelative n))
           else if \<not> IsLocal cleanPath then Some (Inl (PathNotLocal n))
           else
             (case Cut sfx (CHR ''/'') of (base, nextPath, found) \<Rightarrow>
               (case find (\<lambda>ri. Name ri = base) resolvedInputs of
                  None \<Rightarrow> Some (Inl (MapInputNotFound n))
                | Some resolvedInput \<Rightarrow>
                    (if found then
                       (if Type resolvedInput \<noteq> RPackInputTypeDirectory
                        then Some (Inl (MapPathNotDirectory n))
                        else let cleanNextPath = Clean nextPath in
                          if IsAbs cleanNextPath then Some (Inl (MapPathNotRelative n))
                          else if \<not> IsLocal cleanNextPath then Some (Inl (MapPathNotLocal n))
                          else Some (Inr (NewFileBackedFSHandle
                                 (Join [ResolvedPath resolvedInput, cleanNextPath])
                                 (pre @ cleanPath) name
                                 (Join [UserPath resolvedInput, cleanNextPath]))))
                     else Some (Inr (NewFileBackedFSHandle (ResolvedPath resolvedInput)
                                 (pre @ cleanPath) name (UserPath resolvedInput))))))))"

text \<open>\<open>BaseFS.resolve\<close>: the first resolver that matches decides.\<close>

fun resolve :: "FSResolver list \<Rightarrow> string \<Rightarrow> error + FSHandle" where
  "resolve [] n = Inl (CouldNotResolve n)"
| "resolve (r # rs) n =
     (case Resolve r n of Some res \<Rightarrow> res | None \<Rightarrow> resolve rs n)"

text \<open>The resolver list that \<open>NewRPackFS\<close> builds.\<close>

definition RPackFS_Resolvers ::
    "string \<Rightarrow> string \<Rightarrow> string \<Rightarrow> RPackResolvedInput list \<Rightarrow> FSResolver list" where
  "RPackFS_Resolvers defSourcePath runPath tempPath resolvedInputs =
     [FileBackedFSResolver RPackResolver ''rpack:'' defSourcePath,
      FileBackedFSResolver TempResolver ''temp:'' tempPath,
      MapFSResolver MapResolver MapFSResolverPrefix resolvedInputs,
      FileBackedFSResolver TargetResolver [] runPath]"


section \<open>The files on disk\<close>

text \<open>The operating system's file tree is a map from a path to what is found there:
  nothing, a regular file with its bytes, a directory, or an entry that cannot be
  examined (\<open>os.Stat\<close> fails with an error other than not-exist).\<close>

datatype os_entry = Absent | RegFile string | Directory | Faulty

type_synonym os_state = "string \<Rightarrow> os_entry"

text \<open>\<open>os.MkdirAll\<close>: every directory on the way to the path is created when absent; a
  regular file or a faulty entry on the way is an error. The root is taken to exist.\<close>

definition dirChain :: "string \<Rightarrow> string list" where
  "dirChain p =
     filter (\<lambda>d. d \<noteq> [])
       (map (\<lambda>k. joinSep (take k (splitSep p))) [1..<Suc (length (splitSep p))])"

fun mkdirChain :: "os_state \<Rightarrow> string list \<Rightarrow> bool \<times> os_state" where
  "mkdirChain os [] = (True, os)"
| "mkdirChain os (d # ds) =
     (case os d of
        Directory \<Rightarrow> mkdirChain os ds
      | Absent \<Rightarrow> mkdirChain (os(d := Directory)) ds
      | RegFile _ \<Rightarrow> (False, os)
      | Faulty \<Rightarrow> (False, os))"

definition os_MkdirAll :: "os_state \<Rightarrow> string \<Rightarrow> bool \<times> os_state" where
  "os_MkdirAll os p = mkdirChain os (dirChain p)"

text \<open>\<open>os.WriteFile\<close> creates or truncates a regular file; it fails on a directory and on
  a faulty entry.\<close>

definition os_WriteFile :: "os_state \<Rightarrow> string \<Rightarrow> string \<Rightarrow> bool \<times> os_state" where
  "os_WriteFile os p b =
     (case os p of
        Directory \<Rightarrow> (False, os)
      | Faulty \<Rightarrow> (False, os)
      | _ \<Rightarrow> (True, os(p := RegFile b)))"

text \<open>\<open>os.ReadFile\<close> returns the bytes of a regular file and fails on everything else.\<close>

definition os_ReadFile :: "os_state \<Rightarrow> string \<Rightarrow> string option" where
  "os_ReadFile os p = (case os p of RegFile b \<Rightarrow> Some b | _ \<Rightarrow> None)"

section \<open>File-backed handles (FileBackedFSHandle)\<close>

definition handle_Read :: "os_state \<Rightarrow> FSHandle \<Rightarrow> error + string" where
  "handle_Read os f =
     (case os_ReadFile os (absPath f) of
        None \<Rightarrow> Inl (CouldNotRead (friendlyPath f))
      | Some content \<Rightarrow> Inr content)"

definition handle_Write :: "os_state \<Rightarrow> FSHandle \<Rightarrow> string \<Rightarrow> error option \<times> os_state" where
  "handle_Write os f b =
     (case os_MkdirAll os (Dir (absPath f)) of
        (False, os1) \<Rightarrow> (Some (CouldNotWrite (friendlyPath f)), os1)
      | (True, os1) \<Rightarrow>
          (case os_WriteFile os1 (absPath f) b of
             (False, os2) \<Rightarrow> (Some (CouldNotWrite (friendlyPath f)), os2)
           | (True, os2) \<Rightarrow> (None, os2)))"

text \<open>\<open>Stat\<close> returns a triple of two booleans and an error. The source returns
  \<open>false, false, nil\<close> when the path does not exist and
  \<open>fileInfo.IsDir(), true, nil\<close> when it does.\<close>

definition handle_Stat :: "os_state \<Rightarrow> FSHandle \<Rightarrow> error + (bool \<times> bool)" where
  "handle_Stat os f =
     (case os (absPath f) of
        Absent \<Rightarrow> Inr (False, False)
      | Faulty \<Rightarrow> Inl (ErrorAccessingFile (friendlyPath f))
      | RegFile _ \<Rightarrow> Inr (False, True)
      | Directory \<Rightarrow> Inr (True, True))"

text \<open>\<open>ReadDir\<close>. The listing that \<open>os.ReadDir\<close> returns for a directory (entry names with
  their is-directory flag, sorted by name) is the parameter \<open>ls\<close>; \<open>None\<close> is a failed
  listing.\<close>

type_synonym dir_listing = "string \<Rightarrow> (string \<times> bool) list option"

definition handle_ReadDir ::
    "dir_listing \<Rightarrow> FSHandle \<Rightarrow> error + (FSHandle list \<times> FSHandle list)" where
  "handle_ReadDir ls f =
     (case ls (absPath f) of
        None \<Rightarrow> Inl (ErrorReadDir (friendlyPath f))
      | Some entries \<Rightarrow>
          (let mk = (\<lambda>e. NewFileBackedFSHandle (Join [absPath f, fst e])
                           (Join [friendlyPath f, fst e]) (resolver f)
                           (Join [indirectTargetPath f, fst e]))
           in Inr (map mk (filter (\<lambda>e. \<not> snd e) entries), map mk (filter snd entries))))"

section \<open>Purity tracking and the recorder (EnsurePure, FSRecorder)\<close>

record EnsurePure =
  ReadHandles :: "FSHandle list"
  ReadDirHandles :: "FSHandle list"
  StatHandles :: "FSHandle list"
  WriteHandles :: "FSHandle list"

definition EnsurePure_empty :: EnsurePure where
  "EnsurePure_empty = \<lparr>ReadHandles = [], ReadDirHandles = [], StatHandles = [], WriteHandles = []\<rparr>"

definition pure_Read :: "FSHandle \<Rightarrow> EnsurePure \<Rightarrow> EnsurePure" where
  "pure_Read h f = (if resolver h = MapResolver then f\<lparr>ReadHandles := ReadHandles f @ [h]\<rparr> else f)"

definition pure_Write :: "FSHandle \<Rightarrow> EnsurePure \<Rightarrow> EnsurePure" where
  "pure_Write h f = (if resolver h = TargetResolver then f\<lparr>WriteHandles := WriteHandles f @ [h]\<rparr> else f)"

definition pure_ReadDir :: "FSHandle \<Rightarrow> EnsurePure \<Rightarrow> EnsurePure" where
  "pure_ReadDir h f = (if resolver h = MapResolver then f\<lparr>ReadDirHandles := ReadDirHandles f @ [h]\<rparr> else f)"

definition pure_Stat :: "FSHandle \<Rightarrow> EnsurePure \<Rightarrow> EnsurePure" where
  "pure_Stat h f = (if resolver h = MapResolver then f\<lparr>StatHandles := StatHandles f @ [h]\<rparr> else f)"

type_synonym FSRecorderRecord = "FSAccessType \<times> FSHandle"

section \<open>The mediated filesystem (BaseFS wired as RPackFS)\<close>

text \<open>\<open>NewRPackFS\<close> registers three hooks in this order: access control, purity, recorder.
  The executor always asks for purity enforcement, and the recorder has no filter, so it
  keeps every record.\<close>

datatype FSAccessHook = AccessControlHook | PureHook | RecorderHook

record RPackFS =
  Resolvers :: "FSResolver list"
  Hooks :: "FSAccessHook list"
  PureCheck :: EnsurePure
  recorder :: "FSRecorderRecord list"

definition NewRPackFS ::
    "string \<Rightarrow> string \<Rightarrow> string \<Rightarrow> RPackResolvedInput list \<Rightarrow> RPackFS" where
  "NewRPackFS defSourcePath runPath tempPath resolvedInputs =
     \<lparr>Resolvers = RPackFS_Resolvers defSourcePath runPath tempPath resolvedInputs,
      Hooks = [AccessControlHook, PureHook, RecorderHook],
      PureCheck = EnsurePure_empty,
      recorder = []\<rparr>"

fun hook_call :: "FSAccessHook \<Rightarrow> FSAccessType \<Rightarrow> FSHandle \<Rightarrow> RPackFS \<Rightarrow> error option \<times> RPackFS" where
  "hook_call AccessControlHook typ h fs =
     ((case typ of FSAccessTypeRead \<Rightarrow> acl_Read h | FSAccessTypeWrite \<Rightarrow> acl_Write h
        | FSAccessTypeStat \<Rightarrow> acl_Stat h | FSAccessTypeReadDir \<Rightarrow> acl_ReadDir h), fs)"
| "hook_call PureHook typ h fs =
     (None, fs\<lparr>PureCheck :=
        (case typ of FSAccessTypeRead \<Rightarrow> pure_Read h (PureCheck fs)
         | FSAccessTypeWrite \<Rightarrow> pure_Write h (PureCheck fs)
         | FSAccessTypeStat \<Rightarrow> pure_Stat h (PureCheck fs)
         | FSAccessTypeReadDir \<Rightarrow> pure_ReadDir h (PureCheck fs))\<rparr>)"
| "hook_call RecorderHook typ h fs = (None, fs\<lparr>recorder := recorder fs @ [(typ, h)]\<rparr>)"

text \<open>The loop over the hooks: the first error ends it.\<close>

fun run_hooks :: "FSAccessHook list \<Rightarrow> FSAccessType \<Rightarrow> FSHandle \<Rightarrow> RPackFS \<Rightarrow> error option \<times> RPackFS" where
  "run_hooks [] typ h fs = (None, fs)"
| "run_hooks (k # ks) typ h fs =
     (case hook_call k typ h fs of
        (Some e, fs1) \<Rightarrow> (Some e, fs1)
      | (None, fs1) \<Rightarrow> run_hooks ks typ h fs1)"

definition FS_Write :: "RPackFS \<Rightarrow> os_state \<Rightarrow> string \<Rightarrow> string \<Rightarrow> error option \<times> RPackFS \<times> os_state" where
  "FS_Write fs os n b =
     (case resolve (Resolvers fs) n of
        Inl e \<Rightarrow> (Some e, fs, os)
      | Inr h \<Rightarrow>
          (case run_hooks (Hooks fs) FSAccessTypeWrite h fs of
             (Some e, fs1) \<Rightarrow> (Some e, fs1, os)
           | (None, fs1) \<Rightarrow> (case handle_Write os h b of (r, os1) \<Rightarrow> (r, fs1, os1))))"

definition FS_Read :: "RPackFS \<Rightarrow> os_state \<Rightarrow> string \<Rightarrow> (error + string) \<times> RPackFS" where
  "FS_Read fs os n =
     (case resolve (Resolvers fs) n of
        Inl e \<Rightarrow> (Inl e, fs)
      | Inr h \<Rightarrow>
          (case run_hooks (Hooks fs) FSAccessTypeRead h fs of
             (Some e, fs1) \<Rightarrow> (Inl e, fs1)
           | (None, fs1) \<Rightarrow> (handle_Read os h, fs1)))"

text \<open>\<open>Stat\<close> hands the handle's two booleans on as \<open>(exists, dir)\<close>.\<close>

definition FS_Stat :: "RPackFS \<Rightarrow> os_state \<Rightarrow> string \<Rightarrow> (error + (bool \<times> bool)) \<times> RPackFS" where
  "FS_Stat fs os n =
     (case resolve (Resolvers fs) n of
        Inl e \<Rightarrow> (Inl e, fs)
      | Inr h \<Rightarrow>
          (case run_hooks (Hooks fs) FSAccessTypeStat h fs of
             (Some e, fs1) \<Rightarrow> (Inl e, fs1)
           | (None, fs1) \<Rightarrow> (handle_Stat os h, fs1)))"

text \<open>The loop of \<open>ReadDir\<close> that runs the stat hooks on every child handle.\<close>

fun stat_children :: "FSHandle list \<Rightarrow> RPackFS \<Rightarrow> error option \<times> RPackFS" where
  "stat_children [] fs = (None, fs)"
| "stat_children (h # hs) fs =
     (case run_hooks (Hooks fs) FSAccessTypeStat h fs of
        (Some e, fs1) \<Rightarrow> (Some e, fs1)
      | (None, fs1) \<Rightarrow> stat_children hs fs1)"

definition FS_ReadDir ::
    "dir_listing \<Rightarrow> RPackFS \<Rightarrow> os_state \<Rightarrow> string \<Rightarrow> (error + (string list \<times> string list)) \<times> RPackFS" where
  "FS_ReadDir ls fs os n =
     (case resolve (Resolvers fs) n of
        Inl e \<Rightarrow> (Inl e, fs)
      | Inr h \<Rightarrow>
          (case run_hooks (Hooks fs) FSAccessTypeStat h fs of
             (Some e, fs1) \<Rightarrow> (Inl e, fs1)
           | (None, fs1) \<Rightarrow>
               (case handle_Stat os h of
                  Inl e \<Rightarrow> (Inl e, fs1)
                | Inr (exists, dir) \<Rightarrow>
                    if \<not> exists then (Inl (PathDoesNotExist n), fs1)
                    else if \<not> dir then (Inl (PathIsNotADirectory n), fs1)
                    else
                      (case run_hooks (Hooks fs1) FSAccessTypeReadDir h fs1 of
                         (Some e, fs2) \<Rightarrow> (Inl e, fs2)
                       | (None, fs2) \<Rightarrow>
                           (case handle_ReadDir ls h of
                              Inl e \<Rightarrow> (Inl e, fs2)
                            | Inr (files, dirs) \<Rightarrow>
                                (case stat_children files fs2 of
                                   (Some e, fs3) \<Rightarrow> (Inl e, fs3)
                                 | (None, fs3) \<Rightarrow>
                                     (case stat_children dirs fs3 of
                                        (Some e, fs4) \<Rightarrow> (Inl e, fs4)
                                      | (None, fs4) \<Rightarrow>
                                          (Inr (map friendlyPath files, map friendlyPath dirs), fs4))))))))"


section \<open>The lockfile and its diff (RPackLockFile.Changes)\<close>

record RPackLockFileFile =
  Path :: string
  Sha :: string

record RPackLockFile =
  SchemaVersion :: string
  Files :: "RPackLockFileFile list"

record RPackLockFileChanges =
  Added :: "string list"
  Removed :: "string list"

definition RPackLockFileCurrentSchemaVersion :: string where
  "RPackLockFileCurrentSchemaVersion = ''v1''"

definition NewRPackLockFile :: RPackLockFile where
  "NewRPackLockFile = \<lparr>SchemaVersion = RPackLockFileCurrentSchemaVersion, Files = []\<rparr>"

definition AddFile :: "RPackLockFile \<Rightarrow> string \<Rightarrow> string \<Rightarrow> RPackLockFile" where
  "AddFile f path sha = f\<lparr>Files := Files f @ [\<lparr>Path = path, Sha = sha\<rparr>]\<rparr>"

text \<open>The three loops of \<open>Changes\<close>. The Go maps with empty-struct values are sets of
  paths.\<close>

fun collectNew :: "string set \<Rightarrow> RPackLockFileFile list \<Rightarrow> string set" where
  "collectNew newFiles [] = newFiles"
| "collectNew newFiles (newFile # rest) = collectNew (insert (Path newFile) newFiles) rest"

fun scanOld :: "string set \<Rightarrow> string set \<Rightarrow> string list \<Rightarrow> RPackLockFileFile list
                  \<Rightarrow> string set \<times> string list" where
  "scanOld newFiles oldFiles removed [] = (oldFiles, removed)"
| "scanOld newFiles oldFiles removed (oldFile # rest) =
     scanOld newFiles (insert (Path oldFile) oldFiles)
       (if Path oldFile \<notin> newFiles then removed @ [Path oldFile] else removed) rest"

fun scanNew :: "string set \<Rightarrow> string list \<Rightarrow> RPackLockFileFile list \<Rightarrow> string list" where
  "scanNew oldFiles added [] = added"
| "scanNew oldFiles added (newFile # rest) =
     scanNew oldFiles (if Path newFile \<notin> oldFiles then added @ [Path newFile] else added) rest"

definition Changes :: "RPackLockFile \<Rightarrow> RPackLockFile \<Rightarrow> RPackLockFileChanges" where
  "Changes f old =
     (let newFiles = collectNew {} (Files f);
          (oldFiles, removed) = scanOld newFiles {} [] (Files old);
          added = scanNew oldFiles [] (Files f)
      in \<lparr>Added = added, Removed = removed\<rparr>)"

section \<open>Lua values and the JSON helpers (luamodel.go, lualib_rpack.go)\<close>

text \<open>A Lua value. The type \<open>'f\<close> stands for the float64 of a Lua number. A table is the
  sequence of its key-value pairs in the order in which \<open>ForEach\<close> visits them, with the
  text that \<open>String()\<close> prints for it; \<open>LOther\<close> is any other value (function, userdata,
  thread, channel) with the name of its type and the text that \<open>String()\<close> prints.\<close>

datatype 'f LValue =
    LNil
  | LBool bool
  | LNumber 'f
  | LString string
  | LTable string "('f LValue \<times> 'f LValue) list"
  | LOther string string


text \<open>\<open>LValue.String()\<close>; the parameter \<open>fmt\<close> prints a number.\<close>

fun lv_String :: "('f \<Rightarrow> string) \<Rightarrow> 'f LValue \<Rightarrow> string" where
  "lv_String fmt LNil = ''nil''"
| "lv_String fmt (LBool b) = (if b then ''true'' else ''false'')"
| "lv_String fmt (LNumber x) = fmt x"
| "lv_String fmt (LString s) = s"
| "lv_String fmt (LTable addr kvs) = addr"
| "lv_String fmt (LOther ty s) = s"













section \<open>Shapes of cleaned paths\<close>

text \<open>An ordinary path element is not empty, is neither \<open>.\<close> nor \<open>..\<close> and has no slash.
  The elements of a cleaned path are ordinary, after a run of leading \<open>..\<close> that a rooted
  path never has.\<close>

definition normalElem :: "string \<Rightarrow> bool" where
  "normalElem e = (e \<noteq> [] \<and> e \<noteq> ''.'' \<and> e \<noteq> ''..'' \<and> CHR ''/'' \<notin> set e)"

fun cleanList :: "bool \<Rightarrow> string list \<Rightarrow> bool" where
  "cleanList rooted [] = True"
| "cleanList rooted (e # es) =
     (if e = ''..'' then \<not> rooted \<and> cleanList rooted es
      else normalElem e \<and> list_all normalElem es)"

text \<open>The elements that \<open>Clean\<close> keeps of a path, and the elements of a cleaned local
  path (none for \<open>.\<close>).\<close>

definition pathElems :: "string \<Rightarrow> string list" where
  "pathElems s = cleanElems (IsAbs s) [] (splitSep s)"

definition localElems :: "string \<Rightarrow> string list" where
  "localElems p = (if p = ''.'' then [] else splitSep p)"

section \<open>Which resolver owns a name\<close>

text \<open>Each resolver starts with \<open>strings.CutPrefix(name, r.prefix)\<close> and matches exactly
  when the name has its prefix; so the resolver that decides a name in \<open>BaseFS.resolve\<close>
  is the first of the list whose prefix the name has, and the remainder is the name
  without that prefix.\<close>

fun resolverPrefix :: "FSResolver \<Rightarrow> string" where
  "resolverPrefix (FileBackedFSResolver name pre baseDir) = pre"
| "resolverPrefix (MapFSResolver name pre resolvedInputs) = pre"

definition owner :: "FSResolver list \<Rightarrow> string \<Rightarrow> FSResolver option" where
  "owner rs n = find (\<lambda>r. prefix (resolverPrefix r) n) rs"

definition remainder :: "FSResolver \<Rightarrow> string \<Rightarrow> string" where
  "remainder r n = drop (length (resolverPrefix r)) n"

text \<open>\<open>filepath.location\<close> of the script library splits a friendly path at the first
  colon into the location and the path; without a colon the location is \<open>target\<close>.\<close>

definition luaFilepathLocation :: "string \<Rightarrow> string \<times> string" where
  "luaFilepathLocation path =
     (case Cut path (CHR '':'') of
        (before, after, True) \<Rightarrow> (before, after)
      | (before, after, False) \<Rightarrow> (''target'', before))"


text \<open>What a handle produced for the name \<open>n\<close> by its owning resolver \<open>r\<close> looks like:
  the cleaned remainder is relative, local and a fixed point of \<open>Clean\<close>; the friendly
  path is the prefix followed by it; a file-backed handle has it as indirect target path
  and lies below the base directory; a map handle lies at or below the resolved path of
  the mapped input that the remainder names.\<close>

definition handleWithinBase :: "FSResolver \<Rightarrow> string \<Rightarrow> FSHandle \<Rightarrow> bool" where
  "handleWithinBase r n h =
     (let c = Clean (remainder r n) in
      \<not> IsAbs c \<and> IsLocal c \<and> Clean c = c \<and> friendlyPath h = resolverPrefix r @ c \<and>
      (case r of
         FileBackedFSResolver name pre baseDir \<Rightarrow>
           resolver h = name \<and> indirectTargetPath h = c \<and> absPath h = Join [baseDir, c] \<and>
           prefix (pathElems baseDir) (pathElems (absPath h))
       | MapFSResolver name pre resolvedInputs \<Rightarrow>
           resolver h = name \<and>
           (case Cut (remainder r n) (CHR ''/'') of (base, nextPath, found) \<Rightarrow>
             list_ex (\<lambda>ri. Name ri = base \<and>
               (if found
                then Type ri = RPackInputTypeDirectory \<and> \<not> IsAbs (Clean nextPath) \<and>
                     IsLocal (Clean nextPath) \<and>
                     absPath h = Join [ResolvedPath ri, Clean nextPath] \<and>
                     indirectTargetPath h = Join [UserPath ri, Clean nextPath] \<and>
                     prefix (pathElems (ResolvedPath ri)) (pathElems (absPath h))
                else absPath h = ResolvedPath ri \<and> indirectTargetPath h = UserPath ri))
               resolvedInputs)))"

section \<open>Line input and output (luaReadLines, luaWriteLines, InMemoryFS)\<close>

text \<open>The two line separators, and the carriage return.\<close>

definition LF :: string where "LF = [CHR 0x0A]"
definition CRLF :: string where "CRLF = [CHR 0x0D, CHR 0x0A]"
definition CR :: string where "CR = [CHR 0x0D]"

text \<open>\<open>strings.Index\<close>: the position of the first occurrence, \<open>None\<close> for \<open>-1\<close>.\<close>

fun Index :: "string \<Rightarrow> string \<Rightarrow> nat option" where
  "Index [] sep = (if sep = [] then Some 0 else None)"
| "Index (c # s) sep = (if prefix sep (c # s) then Some 0 else map_option Suc (Index s sep))"

definition Contains :: "string \<Rightarrow> string \<Rightarrow> bool" where
  "Contains s substr = (Index s substr \<noteq> None)"

definition HasSuffix :: "string \<Rightarrow> string \<Rightarrow> bool" where
  "HasSuffix s suf = suffix suf s"

fun strings_Join :: "string list \<Rightarrow> string \<Rightarrow> string" where
  "strings_Join [] sep = []"
| "strings_Join [e] sep = e"
| "strings_Join (e # f # es) sep = e @ sep @ strings_Join (f # es) sep"

text \<open>An occurrence lies within the string; \<open>Split\<close> terminates by this.\<close>

lemma Index_bound: "Index s sep = Some m \<Longrightarrow> m + length sep \<le> length s"
proof (induction s arbitrary: m)
  case Nil
  then show ?case by (simp split: if_splits)
next
  case (Cons c s)
  show ?case
  proof (cases "prefix sep (c # s)")
    case True
    then have "m = 0" using Cons.prems by simp
    moreover have "length sep \<le> length (c # s)" using True by (rule prefix_length_le)
    ultimately show ?thesis by simp
  next
    case False
    then obtain m' where "Index s sep = Some m'" "m = Suc m'" using Cons.prems by auto
    then show ?thesis using Cons.IH by fastforce
  qed
qed

text \<open>\<open>strings.Split\<close> cuts at every occurrence found from left to right. The program
  calls it with a line separator only; for the empty separator, which Go treats by
  cutting after every UTF-8 sequence, the bytes are returned one by one.\<close>

function Split :: "string \<Rightarrow> string \<Rightarrow> string list" where
  "Split s sep =
     (if sep = [] then map (\<lambda>c. [c]) s
      else (case Index s sep of
              None \<Rightarrow> [s]
            | Some m \<Rightarrow> take m s # Split (drop (m + length sep) s) sep))"
  by pat_completeness auto
termination
proof (relation "measure (\<lambda>(s, sep). length s)")
  show "wf (measure (\<lambda>(s, sep). length s))" by simp
next
  fix s sep :: string and m
  assume a: "sep \<noteq> []" and b: "Index s sep = Some m"
  have "m + length sep \<le> length s" by (rule Index_bound[OF b])
  moreover have "0 < length sep" using a by simp
  ultimately have "length s - (m + length sep) < length s" by arith
  then show "((drop (m + length sep) s, sep), (s, sep)) \<in> measure (\<lambda>(s, sep). length s)"
    by simp
qed


text \<open>\<open>InMemoryFS\<close>: a map from a name to an entry with its content.\<close>

record InMemoryFSEntry =
  Content :: string
  IsDir :: bool

type_synonym InMemoryFS = "string \<Rightarrow> InMemoryFSEntry option"

definition NewInMemoryFS :: InMemoryFS where
  "NewInMemoryFS = (\<lambda>_. None)"

definition mem_Write :: "InMemoryFS \<Rightarrow> string \<Rightarrow> string \<Rightarrow> error option \<times> InMemoryFS" where
  "mem_Write fs name b =
     (let entry = (case fs name of None \<Rightarrow> \<lparr>Content = [], IsDir = False\<rparr> | Some e \<Rightarrow> e);
          fs1 = fs(name \<mapsto> entry)
      in if IsDir entry then (Some (IsDirectory name), fs1)
         else (None, fs1(name \<mapsto> entry\<lparr>Content := b\<rparr>)))"

definition mem_Read :: "InMemoryFS \<Rightarrow> string \<Rightarrow> (error + string) \<times> InMemoryFS" where
  "mem_Read fs name =
     (case fs name of
        None \<Rightarrow> (Inl (FileDoesNotExist name), fs)
      | Some entry \<Rightarrow> if IsDir entry then (Inl (IsDirectory name), fs) else (Inr (Content entry), fs))"

text \<open>The script library reaches the filesystem through the \<open>FS\<close> interface. Its
  \<open>Write\<close> and \<open>Read\<close> are parameters that pass the state of the filesystem behind the
  interface along.\<close>

type_synonym 'st fs_write = "'st \<Rightarrow> string \<Rightarrow> string \<Rightarrow> error option \<times> 'st"
type_synonym 'st fs_read = "'st \<Rightarrow> string \<Rightarrow> (error + string) \<times> 'st"

text \<open>The table that \<open>read_lines\<close> returns, with its keys \<open>lines\<close>, \<open>separator\<close> and
  \<open>finalNewline\<close>.\<close>

record ReadLinesResult =
  rl_lines :: "string list"
  rl_separator :: string
  rl_finalNewline :: bool

text \<open>\<open>luaWriteLines\<close>: the lines are the \<open>String()\<close> of the table's entries 1 to
  \<open>Len()\<close>; the separator defaults to a line feed and the final newline to true.\<close>

definition luaWriteLines ::
    "('f \<Rightarrow> string) \<Rightarrow> 'st fs_write \<Rightarrow> 'st \<Rightarrow> string \<Rightarrow> 'f LValue list \<Rightarrow> string option \<Rightarrow> bool option
       \<Rightarrow> error option \<times> 'st" where
  "luaWriteLines fmt fsWrite st friendly linesTbl optSep optFinalNewline =
     (let sep = (case optSep of None \<Rightarrow> LF | Some x \<Rightarrow> x);
          finalNewline = (case optFinalNewline of None \<Rightarrow> True | Some x \<Rightarrow> x);
          lines = map (lv_String fmt) linesTbl;
          content = strings_Join lines sep;
          content = (if finalNewline then content @ sep else content)
      in case fsWrite st friendly content of
           (Some err, st1) \<Rightarrow> (Some (LuaArgErrorOf 1 err), st1)
         | (None, st1) \<Rightarrow> (None, st1))"

definition luaReadLines :: "'st fs_read \<Rightarrow> 'st \<Rightarrow> string \<Rightarrow> (error + ReadLinesResult) \<times> 'st" where
  "luaReadLines fsRead st friendly =
     (case fsRead st friendly of
        (Inl err, st1) \<Rightarrow> (Inl (LuaArgErrorOf 1 err), st1)
      | (Inr content, st1) \<Rightarrow>
          (let sep = (if Contains content CRLF then CRLF else LF);
               finalNewline = HasSuffix content sep;
               linesArr = Split content sep;
               linesArr = (if finalNewline \<and> 0 < length linesArr \<and> last linesArr = []
                           then butlast linesArr else linesArr)
           in (Inr \<lparr>rl_lines = linesArr, rl_separator = sep, rl_finalNewline = finalNewline\<rparr>, st1)))"

text \<open>\<open>RPackFS\<close> behind the \<open>FS\<close> interface: the state is the filesystem object together
  with the files on disk.\<close>

definition rpack_Write :: "(RPackFS \<times> os_state) fs_write" where
  "rpack_Write st n b =
     (case FS_Write (fst st) (snd st) n b of (r, fs1, os1) \<Rightarrow> (r, (fs1, os1)))"

definition rpack_Read :: "(RPackFS \<times> os_state) fs_read" where
  "rpack_Read st n =
     (case FS_Read (fst st) (snd st) n of (r, fs1) \<Rightarrow> (r, (fs1, snd st)))"

section \<open>Glob matching (filepath.Match)\<close>




























section \<open>The purity check (EnsurePure.CheckConflicts) and script runs\<close>










section \<open>Verified properties\<close>

subsection \<open>Cleaned paths\<close>

lemma splitSep_nonempty [simp]: "splitSep s \<noteq> []"
  by (induction s) (auto split: list.splits)

lemma splitSep_no_slash: "e \<in> set (splitSep s) \<Longrightarrow> CHR ''/'' \<notin> set e"
  by (induction s arbitrary: e) (auto split: list.splits if_splits)

lemma splitSep_append: "splitSep (a @ CHR ''/'' # b) = splitSep a @ splitSep b"
  by (induction a) (auto split: list.splits)

lemma splitSep_no_slash_id: "CHR ''/'' \<notin> set e \<Longrightarrow> splitSep e = [e]"
  by (induction e) auto

lemma splitSep_joinSep:
  "es \<noteq> [] \<Longrightarrow> \<forall>e\<in>set es. CHR ''/'' \<notin> set e \<Longrightarrow> splitSep (joinSep es) = es"
proof (induction es rule: joinSep.induct)
  case 1
  then show ?case by simp
next
  case (2 p)
  then show ?case by (simp add: splitSep_no_slash_id)
next
  case (3 p q ps)
  then show ?case by (simp add: splitSep_append splitSep_no_slash_id)
qed

lemma cleanElems_append:
  "cleanElems r out (xs @ ys) = cleanElems r (rev (cleanElems r out xs)) ys"
  by (induction xs arbitrary: out) auto

lemma normal_not_dotdot: "normalElem e \<Longrightarrow> e \<noteq> ''..''"
  by (simp add: normalElem_def)

lemma cleanList_all_normal: "list_all normalElem es \<Longrightarrow> cleanList r es"
  by (cases es) (auto simp: normalElem_def)

lemma cleanList_snoc_normal: "cleanList r es \<Longrightarrow> normalElem e \<Longrightarrow> cleanList r (es @ [e])"
  by (induction es) (auto simp: normal_not_dotdot)

lemma cleanList_snoc_dotdot:
  "cleanList False es \<Longrightarrow> es = [] \<or> last es = ''..'' \<Longrightarrow> cleanList False (es @ [''..''])"
proof (induction es)
  case Nil
  then show ?case by simp
next
  case (Cons a es)
  show ?case
  proof (cases "a = ''..''")
    case True
    then show ?thesis using Cons by (cases es) auto
  next
    case False
    then have "list_all normalElem (a # es)" using Cons.prems(1) by simp
    then have "normalElem (last (a # es))" by (metis last_in_set list.discI list_all_iff)
    then show ?thesis using Cons.prems(2) by (simp add: normalElem_def)
  qed
qed

lemma cleanList_butlast: "cleanList r es \<Longrightarrow> cleanList r (butlast es)"
proof (induction es)
  case Nil
  then show ?case by simp
next
  case (Cons a es)
  show ?case
  proof (cases "a = ''..''")
    case True
    then show ?thesis using Cons by auto
  next
    case False
    then have "list_all normalElem (a # es)" using Cons.prems by simp
    then have "list_all normalElem (butlast (a # es))"
      by (metis in_set_butlastD list_all_iff)
    then show ?thesis by (rule cleanList_all_normal)
  qed
qed

lemma cleanList_mid: "cleanList r (xs @ e # es) \<Longrightarrow> e = ''..'' \<or> normalElem e"
  by (induction xs) (auto simp: list_all_iff split: if_splits)

lemma cleanList_before_dotdot:
  "cleanList r (xs @ ''..'' # es) \<Longrightarrow> \<not> r \<and> (\<forall>x\<in>set xs. x = ''..'')"
proof (induction xs)
  case Nil
  then show ?case by simp
next
  case (Cons a xs)
  show ?case
  proof (cases "a = ''..''")
    case True
    from Cons.prems True have "\<not> r \<and> cleanList r (xs @ ''..'' # es)" by auto
    then have "cleanList r (xs @ ''..'' # es)" by (rule conjunct2)
    then show ?thesis using Cons.IH True by simp
  next
    case False
    then have "list_all normalElem (xs @ ''..'' # es)" using Cons.prems by simp
    then have "normalElem ''..''" by simp
    then show ?thesis by (simp add: normalElem_def)
  qed
qed

lemma cleanElems_cleanList:
  "cleanList r (rev out) \<Longrightarrow> \<forall>e\<in>set es. CHR ''/'' \<notin> set e \<Longrightarrow> cleanList r (cleanElems r out es)"
proof (induction es arbitrary: out)
  case Nil
  then show ?case by simp
next
  case (Cons e es)
  show ?case
  proof (cases "e = [] \<or> e = ''.''")
    case True
    then show ?thesis using Cons by auto
  next
    case False
    note nf = False
    show ?thesis
    proof (cases "e = ''..''")
      case True
      note dd = True
      show ?thesis
      proof (cases "out \<noteq> [] \<and> hd out \<noteq> ''..''")
        case True
        have "cleanList r (rev (tl out))"
          using cleanList_butlast[OF Cons.prems(1)] by (simp add: butlast_rev)
        then show ?thesis using Cons dd True by auto
      next
        case False
        note nb = False
        show ?thesis
        proof (cases r)
          case True
          then show ?thesis using Cons dd nb by auto
        next
          case False
          have "rev out = [] \<or> last (rev out) = ''..''" using nb by (cases out) auto
          moreover have "cleanList False (rev out)" using Cons.prems(1) False by simp
          ultimately have "cleanList False (rev (''..'' # out))"
            using cleanList_snoc_dotdot by simp
          then show ?thesis using Cons dd nb False by auto
        qed
      qed
    next
      case False
      then have "normalElem e" using nf Cons.prems(2) by (simp add: normalElem_def)
      then have "cleanList r (rev (e # out))" using Cons.prems(1) by (simp add: cleanList_snoc_normal)
      then show ?thesis using Cons nf False by auto
    qed
  qed
qed

lemma cleanElems_id:
  "cleanList r (rev out @ es) \<Longrightarrow> cleanElems r out es = rev out @ es"
proof (induction es arbitrary: out)
  case Nil
  then show ?case by simp
next
  case (Cons e es)
  have cl: "cleanList r (rev (e # out) @ es)" using Cons.prems by simp
  show ?case
  proof (cases "e = ''..''")
    case True
    have "\<not> r \<and> (\<forall>x\<in>set (rev out). x = ''..'')"
      using cleanList_before_dotdot Cons.prems True by blast
    then have "\<not> r" and "out = [] \<or> hd out = ''..''" by (cases out; auto)+
    then show ?thesis using True Cons.IH[OF cl] by auto
  next
    case False
    then have "normalElem e" using cleanList_mid[OF Cons.prems] by simp
    then show ?thesis using Cons.IH[OF cl] by (auto simp: normalElem_def)
  qed
qed

lemma pathElems_cleanList: "cleanList (IsAbs s) (pathElems s)"
  unfolding pathElems_def by (rule cleanElems_cleanList) (auto dest: splitSep_no_slash)

lemma cleanList_no_slash: "cleanList r es \<Longrightarrow> e \<in> set es \<Longrightarrow> CHR ''/'' \<notin> set e"
  by (induction es) (auto simp: list_all_iff normalElem_def split: if_splits)

lemma cleanList_hd_nonempty: "cleanList r (e # es) \<Longrightarrow> e \<noteq> []"
  by (auto simp: normalElem_def split: if_splits)

lemma joinSep_hd: "joinSep (e # es) = e @ (if es = [] then [] else CHR ''/'' # joinSep es)"
  by (cases es) auto

lemma Clean_eq:
  "Clean s = (if s = [] then ''.'' else if IsAbs s then CHR ''/'' # joinSep (pathElems s)
              else if pathElems s = [] then ''.'' else joinSep (pathElems s))"
  by (simp add: Clean_def pathElems_def Let_def)

lemma IsAbs_Cons [simp]: "IsAbs (c # s) = (c = CHR ''/'')"
  by (simp add: IsAbs_def)

lemma IsAbs_Nil [simp]: "\<not> IsAbs []"
  by (simp add: IsAbs_def)

lemma pathElems_rooted: "cleanList True es \<Longrightarrow> pathElems (CHR ''/'' # joinSep es) = es"
proof -
  assume a: "cleanList True es"
  show ?thesis
  proof (cases "es = []")
    case True
    then show ?thesis by (simp add: pathElems_def)
  next
    case False
    then have "splitSep (joinSep es) = es"
      using a by (intro splitSep_joinSep) (auto dest: cleanList_no_slash)
    then show ?thesis using a by (simp add: pathElems_def cleanElems_id)
  qed
qed

lemma joinSep_not_abs: "cleanList r (e # es) \<Longrightarrow> \<not> IsAbs (joinSep (e # es)) \<and> joinSep (e # es) \<noteq> []"
proof -
  assume a: "cleanList r (e # es)"
  have "e \<noteq> []" using cleanList_hd_nonempty[OF a] .
  moreover have "CHR ''/'' \<notin> set e" using cleanList_no_slash[OF a, of e] by simp
  ultimately show ?thesis by (cases e) (auto simp: joinSep_hd)
qed

lemma pathElems_unrooted:
  "cleanList False es \<Longrightarrow> es \<noteq> [] \<Longrightarrow> pathElems (joinSep es) = es"
proof -
  assume a: "cleanList False es" and b: "es \<noteq> []"
  then obtain e es' where es: "es = e # es'" by (cases es) auto
  have "\<not> IsAbs (joinSep es)" using joinSep_not_abs a es by blast
  moreover have "splitSep (joinSep es) = es"
    using a b by (intro splitSep_joinSep) (auto dest: cleanList_no_slash)
  ultimately show ?thesis using a by (simp add: pathElems_def cleanElems_id)
qed

lemma Clean_idem: "Clean (Clean s) = Clean s"
proof (cases "s = []")
  case True
  then show ?thesis by (simp add: Clean_def IsAbs_def)
next
  case False
  note ne = False
  show ?thesis
  proof (cases "IsAbs s")
    case True
    have cl: "cleanList True (pathElems s)" using pathElems_cleanList[of s] True by simp
    have "Clean s = CHR ''/'' # joinSep (pathElems s)" using ne True by (simp add: Clean_eq)
    moreover have "Clean (CHR ''/'' # joinSep (pathElems s)) = CHR ''/'' # joinSep (pathElems s)"
      by (simp add: Clean_eq pathElems_rooted[OF cl])
    ultimately show ?thesis by simp
  next
    case False
    have cl: "cleanList False (pathElems s)" using pathElems_cleanList[of s] False by simp
    show ?thesis
    proof (cases "pathElems s = []")
      case True
      then have "Clean s = ''.''" using ne False by (simp add: Clean_eq)
      then show ?thesis by (simp add: Clean_def IsAbs_def)
    next
      case nemp: False
      then obtain e es where es: "pathElems s = e # es" by (cases "pathElems s") auto
      have c: "Clean s = joinSep (pathElems s)" using ne False nemp by (simp add: Clean_eq)
      have "\<not> IsAbs (joinSep (pathElems s)) \<and> joinSep (pathElems s) \<noteq> []"
        using joinSep_not_abs cl es by metis
      then have "Clean (joinSep (pathElems s)) = joinSep (pathElems s)"
        using nemp by (simp add: Clean_eq pathElems_unrooted[OF cl nemp])
      then show ?thesis using c by simp
    qed
  qed
qed

lemma joinSep_splitSep: "joinSep (splitSep s) = s"
proof (induction s)
  case Nil
  then show ?case by simp
next
  case (Cons c s)
  show ?case
  proof (cases "c = CHR ''/''")
    case True
    then show ?thesis using Cons by (cases "splitSep s") auto
  next
    case False
    obtain p ps where sp: "splitSep s = p # ps" by (cases "splitSep s") auto
    then show ?thesis using Cons False by (cases ps) auto
  qed
qed

lemma joinSep_dotdot_not_local:
  "cleanList False (''..'' # es) \<Longrightarrow> \<not> IsLocal (joinSep (''..'' # es))"
proof -
  assume a: "cleanList False (''..'' # es)"
  let ?c = "joinSep (''..'' # es)"
  have sp: "splitSep ?c = ''..'' # es"
    using a by (intro splitSep_joinSep) (auto dest: cleanList_no_slash)
  have pe: "pathElems ?c = ''..'' # es" using a by (intro pathElems_unrooted) auto
  have na: "\<not> IsAbs ?c" "?c \<noteq> []" using joinSep_not_abs[OF a] by auto
  have cc: "Clean ?c = ?c" using na pe by (simp add: Clean_eq)
  have "?c = ''..'' \<or> prefix ''../'' ?c" by (cases es) auto
  then show ?thesis using sp cc by (simp add: IsLocal_def Let_def)
qed

lemma local_clean_elems:
  assumes "\<not> IsAbs (Clean s)" and "IsLocal (Clean s)"
  shows "list_all normalElem (localElems (Clean s))"
    and "Clean s \<noteq> ''.'' \<Longrightarrow> joinSep (localElems (Clean s)) = Clean s"
proof -
  have both: "list_all normalElem (localElems (Clean s)) \<and>
        (Clean s \<noteq> ''.'' \<longrightarrow> joinSep (localElems (Clean s)) = Clean s)"
  proof (cases "Clean s = ''.''")
    case True
    then show ?thesis by (simp add: localElems_def)
  next
    case False
    note nd = False
    have ne: "s \<noteq> []" using nd by (auto simp: Clean_def)
    have na: "\<not> IsAbs s" using assms(1) ne by (auto simp: Clean_eq)
    have nemp: "pathElems s \<noteq> []" using nd ne na by (auto simp: Clean_eq)
    have c: "Clean s = joinSep (pathElems s)" using ne na nemp by (simp add: Clean_eq)
    have cl: "cleanList False (pathElems s)" using pathElems_cleanList[of s] na by simp
    obtain e es where es: "pathElems s = e # es" using nemp by (cases "pathElems s") auto
    have "e \<noteq> ''..''" using joinSep_dotdot_not_local cl es c assms(2) by metis
    then have alln: "list_all normalElem (pathElems s)" using cl es by simp
    have "splitSep (Clean s) = pathElems s"
      unfolding c using cl nemp by (intro splitSep_joinSep) (auto dest: cleanList_no_slash)
    then show ?thesis using nd alln c by (simp add: localElems_def)
  qed
  show "list_all normalElem (localElems (Clean s))" using both by (rule conjunct1)
  show "Clean s \<noteq> ''.'' \<Longrightarrow> joinSep (localElems (Clean s)) = Clean s"
    using both by simp
qed

lemma cleanList_append_normal:
  "cleanList r xs \<Longrightarrow> list_all normalElem ys \<Longrightarrow> cleanList r (xs @ ys)"
  by (induction xs) (auto simp: normal_not_dotdot intro: cleanList_all_normal)

lemma pathElems_join:
  assumes "R \<noteq> []" and "\<not> IsAbs (Clean s)" and "IsLocal (Clean s)"
  shows "pathElems (R @ CHR ''/'' # Clean s) = pathElems R @ localElems (Clean s)"
proof -
  have ab: "IsAbs (R @ CHR ''/'' # Clean s) = IsAbs R" using assms(1) by (cases R) auto
  have cl: "cleanList (IsAbs R) (pathElems R)" by (rule pathElems_cleanList)
  have step: "pathElems (R @ CHR ''/'' # Clean s) =
        cleanElems (IsAbs R) (rev (pathElems R)) (splitSep (Clean s))"
    by (simp add: pathElems_def ab splitSep_append cleanElems_append)
  show ?thesis
  proof (cases "Clean s = ''.''")
    case True
    then show ?thesis using step by (simp add: localElems_def)
  next
    case False
    have "cleanList (IsAbs R) (pathElems R @ localElems (Clean s))"
      using cl local_clean_elems(1)[OF assms(2,3)] by (rule cleanList_append_normal)
    then have "cleanElems (IsAbs R) (rev (pathElems R)) (localElems (Clean s)) =
         pathElems R @ localElems (Clean s)"
      using cleanElems_id[of "IsAbs R" "rev (pathElems R)"] by simp
    then show ?thesis using step False by (simp add: localElems_def)
  qed
qed

lemma joinSep_nonempty: "cleanList r es \<Longrightarrow> es \<noteq> [] \<Longrightarrow> joinSep es \<noteq> []"
proof -
  assume a: "cleanList r es" and b: "es \<noteq> []"
  obtain e es' where es: "es = e # es'" using b by (cases es) simp_all
  have "cleanList r (e # es')" using a es by simp
  then have "joinSep (e # es') \<noteq> []" by (rule joinSep_not_abs[THEN conjunct2])
  then show ?thesis using es by simp
qed

lemma splitSep_joinSep_clean:
  "cleanList r es \<Longrightarrow> es \<noteq> [] \<Longrightarrow> splitSep (joinSep es) = es"
  by (intro splitSep_joinSep) (auto dest: cleanList_no_slash)

lemma joinSep_inj:
  "cleanList r xs \<Longrightarrow> cleanList r ys \<Longrightarrow> joinSep xs = joinSep ys \<Longrightarrow> xs = ys"
proof -
  assume a: "cleanList r xs" and b: "cleanList r ys" and c: "joinSep xs = joinSep ys"
  show ?thesis
  proof (cases "xs = []")
    case True
    then have "joinSep ys = []" using c by simp
    then have "ys = []" using joinSep_nonempty[OF b] by (cases "ys = []") simp_all
    then show ?thesis using True by simp
  next
    case False
    then have "joinSep ys \<noteq> []" using joinSep_nonempty[OF a] c by simp
    then have "ys \<noteq> []" by (cases "ys = []") simp_all
    then have "splitSep (joinSep ys) = ys" by (rule splitSep_joinSep_clean[OF b])
    moreover have "splitSep (joinSep xs) = xs" by (rule splitSep_joinSep_clean[OF a False])
    ultimately show ?thesis using c by simp
  qed
qed

lemma joinSep_not_dot: "cleanList r es \<Longrightarrow> joinSep es \<noteq> ''.''"
proof
  assume a: "cleanList r es" and b: "joinSep es = ''.''"
  then have "es \<noteq> []" by (cases es) simp_all
  then have "splitSep (joinSep es) = es" by (rule splitSep_joinSep_clean[OF a])
  then have "es = [''.'']" using b by simp
  then show False using a by (simp add: normalElem_def)
qed

lemma Join_pair: "R \<noteq> [] \<Longrightarrow> Join [R, p] = Clean (R @ CHR ''/'' # p)"
  by (cases R) (auto simp: Join_def)

lemma Join_pair_empty: "Join [[], p] = (if p = [] then [] else Clean p)"
  by (cases p) (auto simp: Join_def)

lemma Clean_nonempty [simp]: "Clean s \<noteq> []"
proof (cases "s = [] \<or> IsAbs s \<or> pathElems s = []")
  case True
  then show ?thesis by (auto simp: Clean_eq)
next
  case False
  then obtain e es where es: "pathElems s = e # es" by (cases "pathElems s") auto
  have "cleanList (IsAbs s) (e # es)" using pathElems_cleanList[of s] es by simp
  then have "joinSep (e # es) \<noteq> []" by (rule joinSep_not_abs[THEN conjunct2])
  then show ?thesis using False es by (simp add: Clean_eq)
qed

lemma localElems_Nil: "localElems p = [] \<Longrightarrow> p = ''.''"
proof (rule ccontr)
  assume a: "localElems p = []" and b: "p \<noteq> ''.''"
  from b have "localElems p = splitSep p" by (simp add: localElems_def)
  then have "splitSep p = []" using a by (simp only:)
  then show False using splitSep_nonempty[of p] by (simp only: not_False_eq_True)
qed

lemma localElems_inj:
  assumes "\<not> IsAbs (Clean s)" "IsLocal (Clean s)" "\<not> IsAbs (Clean t)" "IsLocal (Clean t)"
    and "localElems (Clean s) = localElems (Clean t)"
  shows "Clean s = Clean t"
proof (cases "Clean s = ''.''")
  case True
  then have "localElems (Clean s) = []" by (simp add: localElems_def)
  then have "localElems (Clean t) = []" using assms(5) by simp
  then have "Clean t = ''.''" by (rule localElems_Nil)
  then show ?thesis using True by simp
next
  case False
  have nt: "Clean t \<noteq> ''.''"
  proof
    assume "Clean t = ''.''"
    then have "localElems (Clean t) = []" by (simp add: localElems_def)
    then have "localElems (Clean s) = []" using assms(5) by simp
    then have "Clean s = ''.''" by (rule localElems_Nil)
    then show False using False by simp
  qed
  have "Clean s = joinSep (localElems (Clean s))"
    by (rule local_clean_elems(2)[OF assms(1,2) False, symmetric])
  also have "\<dots> = joinSep (localElems (Clean t))" by (simp only: assms(5))
  also have "\<dots> = Clean t" by (rule local_clean_elems(2)[OF assms(3,4) nt])
  finally show ?thesis .
qed

lemma Join_inj:
  assumes "\<not> IsAbs (Clean s)" "IsLocal (Clean s)" "\<not> IsAbs (Clean t)" "IsLocal (Clean t)"
    and "Join [R, Clean s] = Join [R, Clean t]"
  shows "Clean s = Clean t"
proof (cases "R = []")
  case True
  then show ?thesis using assms(5) by (simp add: Join_pair_empty Clean_idem)
next
  case False
  define xs where "xs = pathElems R @ localElems (Clean s)"
  define ys where "ys = pathElems R @ localElems (Clean t)"
  have ne: "R @ CHR ''/'' # Clean s \<noteq> []" "R @ CHR ''/'' # Clean t \<noteq> []" by simp_all
  have ab: "IsAbs (R @ CHR ''/'' # Clean s) = IsAbs R" "IsAbs (R @ CHR ''/'' # Clean t) = IsAbs R"
    using False by (cases R; simp)+
  have pes: "pathElems (R @ CHR ''/'' # Clean s) = xs"
    unfolding xs_def by (rule pathElems_join[OF False assms(1,2)])
  have pet: "pathElems (R @ CHR ''/'' # Clean t) = ys"
    unfolding ys_def by (rule pathElems_join[OF False assms(3,4)])
  have clx: "cleanList (IsAbs R) xs"
    unfolding xs_def
    by (rule cleanList_append_normal[OF pathElems_cleanList local_clean_elems(1)[OF assms(1,2)]])
  have cly: "cleanList (IsAbs R) ys"
    unfolding ys_def
    by (rule cleanList_append_normal[OF pathElems_cleanList local_clean_elems(1)[OF assms(3,4)]])
  have cs: "Clean (R @ CHR ''/'' # Clean s) =
        (if IsAbs R then CHR ''/'' # joinSep xs else if xs = [] then ''.'' else joinSep xs)"
    by (simp only: Clean_eq[of "R @ CHR ''/'' # Clean s"] ab pes ne if_False)
  have ct: "Clean (R @ CHR ''/'' # Clean t) =
        (if IsAbs R then CHR ''/'' # joinSep ys else if ys = [] then ''.'' else joinSep ys)"
    by (simp only: Clean_eq[of "R @ CHR ''/'' # Clean t"] ab pet ne if_False)
  have eq: "Clean (R @ CHR ''/'' # Clean s) = Clean (R @ CHR ''/'' # Clean t)"
    using assms(5) False by (simp add: Join_pair)
  have ndx: "joinSep xs \<noteq> ''.''" by (rule joinSep_not_dot[OF clx])
  have ndy: "joinSep ys \<noteq> ''.''" by (rule joinSep_not_dot[OF cly])
  have "joinSep xs = joinSep ys"
  proof (cases "IsAbs R")
    case True
    then show ?thesis using eq cs ct by simp
  next
    case nr: False
    show ?thesis
    proof (cases "xs = []")
      case True
      then have "ys = []" using eq cs ct nr ndy by (cases "ys = []") simp_all
      then show ?thesis using True by simp
    next
      case False
      then have "ys \<noteq> []" using eq cs ct nr ndx by (cases "ys = []") simp_all
      then show ?thesis using False eq cs ct nr by simp
    qed
  qed
  then have "xs = ys" by (rule joinSep_inj[OF clx cly])
  then have "localElems (Clean s) = localElems (Clean t)" by (simp add: xs_def ys_def)
  then show ?thesis by (rule localElems_inj[OF assms(1-4)])
qed

lemma Join_under_base:
  assumes "\<not> IsAbs (Clean s)" "IsLocal (Clean s)"
  shows "prefix (pathElems R) (pathElems (Join [R, Clean s]))"
proof (cases "R = []")
  case True
  then show ?thesis by (simp add: pathElems_def)
next
  case False
  define xs where "xs = pathElems R @ localElems (Clean s)"
  have clx: "cleanList (IsAbs R) xs"
    unfolding xs_def
    by (rule cleanList_append_normal[OF pathElems_cleanList local_clean_elems(1)[OF assms(1,2)]])
  have ab: "IsAbs (R @ CHR ''/'' # Clean s) = IsAbs R"
    using False by (cases R; simp)
  have pes: "pathElems (R @ CHR ''/'' # Clean s) = xs"
    unfolding xs_def by (rule pathElems_join[OF False assms(1,2)])
  have cs: "Join [R, Clean s] =
        (if IsAbs R then CHR ''/'' # joinSep xs else if xs = [] then ''.'' else joinSep xs)"
    using False by (simp add: Join_pair Clean_eq[of "R @ CHR ''/'' # Clean s"] ab pes)
  have "pathElems (Join [R, Clean s]) = xs"
  proof (cases "IsAbs R")
    case True
    then show ?thesis using cs pathElems_rooted[of xs] clx by simp
  next
    case nr: False
    show ?thesis
    proof (cases "xs = []")
      case True
      then show ?thesis using cs nr by (simp add: pathElems_def)
    next
      case False
      then show ?thesis using cs nr pathElems_unrooted[of xs] clx by simp
    qed
  qed
  then show ?thesis by (simp add: xs_def)
qed


text \<open>C2. The access-control hook denies a write through the rpack and map resolvers and a
  read, stat or readdir through the target resolver; the error is an access-denied error
  whose message quotes the handle's friendly path and names the alternative to use. Every
  other pair of resolver and operation (read, stat, readdir on rpack, temp, map; write on
  temp and target) passes the hook with no error.\<close>

theorem access_control_hook:
  "acl_Write (NewFileBackedFSHandle a f RPackResolver i) =
      Some (AccessDenied (''Not allowed to write '' @ f @ '', use `temp` instead''))
   \<and> acl_Write (NewFileBackedFSHandle a f MapResolver i) =
      Some (AccessDenied (''Not allowed to write '' @ f @ '', use `target` instead''))
   \<and> acl_Read (NewFileBackedFSHandle a f TargetResolver i) =
      Some (AccessDenied (''Not allowed to read '' @ f @
             '' (no access to read from target directory, use 'rpack:' instead)''))
   \<and> acl_Stat (NewFileBackedFSHandle a f TargetResolver i) =
      Some (AccessDenied (''Not allowed to stat '' @ f @
             '' (no access to read from target directory, use 'rpack:' instead)''))
   \<and> acl_ReadDir (NewFileBackedFSHandle a f TargetResolver i) =
      Some (AccessDenied (''Not allowed to readdir '' @ f @
             '' (no access to read from target directory, use 'rpack:' instead)''))
   \<and> acl_Read (NewFileBackedFSHandle a f RPackResolver i) = None
   \<and> acl_Read (NewFileBackedFSHandle a f TempResolver i) = None
   \<and> acl_Read (NewFileBackedFSHandle a f MapResolver i) = None
   \<and> acl_Stat (NewFileBackedFSHandle a f RPackResolver i) = None
   \<and> acl_Stat (NewFileBackedFSHandle a f TempResolver i) = None
   \<and> acl_Stat (NewFileBackedFSHandle a f MapResolver i) = None
   \<and> acl_ReadDir (NewFileBackedFSHandle a f RPackResolver i) = None
   \<and> acl_ReadDir (NewFileBackedFSHandle a f TempResolver i) = None
   \<and> acl_ReadDir (NewFileBackedFSHandle a f MapResolver i) = None
   \<and> acl_Write (NewFileBackedFSHandle a f TempResolver i) = None
   \<and> acl_Write (NewFileBackedFSHandle a f TargetResolver i) = None"
  by (simp add: acl_Write_def acl_Read_def acl_Stat_def acl_ReadDir_def NewFileBackedFSHandle_def
        RPackResolver_def TempResolver_def MapResolver_def TargetResolver_def)


text \<open>C4. The stat contract asks the mediated \<open>Stat\<close> for \<open>(exists, is_dir)\<close> with
  \<open>(true, false)\<close> for a regular file. The handle's \<open>Stat\<close> returns its two booleans in
  the other order, so for the regular file \<open>f\<close> of the pack source the mediated \<open>Stat\<close>
  of \<open>rpack:f\<close> answers \<open>(false, true)\<close>: it does not exist and is a directory.\<close>

theorem stat_regular_file_swapped:
  "fst (FS_Stat (NewRPackFS ''/src'' ''/run'' ''/tmp'' [])
         ((\<lambda>_. Absent)(''/src/f'' := RegFile ''hi'')) ''rpack:f'') = Inr (False, True)"
  by code_simp

subsection \<open>The lockfile diff\<close>

lemma collectNew_set: "collectNew S fs = S \<union> set (map Path fs)"
  by (induction fs arbitrary: S) auto

lemma scanOld_eq:
  "scanOld N S removed fs = (S \<union> set (map Path fs), removed @ filter (\<lambda>p. p \<notin> N) (map Path fs))"
  by (induction fs arbitrary: S removed) auto

lemma scanNew_eq: "scanNew S added fs = added @ filter (\<lambda>p. p \<notin> S) (map Path fs)"
  by (induction fs arbitrary: added) auto

lemma Changes_eq:
  "Changes f old =
     \<lparr>Added = filter (\<lambda>p. p \<notin> set (map Path (Files old))) (map Path (Files f)),
      Removed = filter (\<lambda>p. p \<notin> set (map Path (Files f))) (map Path (Files old))\<rparr>"
  by (simp add: Changes_def collectNew_set scanOld_eq scanNew_eq)

text \<open>C9. For every pair of lockfiles, \<open>Added\<close> holds exactly the paths of the new lockfile
  that the old one lacks and \<open>Removed\<close> exactly the paths of the old lockfile that the new
  one lacks. Only paths are compared: replacing every recorded checksum, in either
  lockfile, by an arbitrary one leaves the result unchanged.\<close>

theorem lockfile_diff:
  "set (Added (Changes new old)) = set (map Path (Files new)) - set (map Path (Files old))
   \<and> set (Removed (Changes new old)) = set (map Path (Files old)) - set (map Path (Files new))
   \<and> Changes new old =
       Changes (new\<lparr>Files := map (\<lambda>x. x\<lparr>Sha := s1\<rparr>) (Files new)\<rparr>)
               (old\<lparr>Files := map (\<lambda>x. x\<lparr>Sha := s2\<rparr>) (Files old)\<rparr>)"
  by (auto simp: Changes_eq comp_def)

subsection \<open>The JSON and YAML printers\<close>









subsection \<open>Resolution\<close>

lemma Resolve_None_iff: "Resolve r n = None \<longleftrightarrow> \<not> prefix (resolverPrefix r) n"
  by (cases r) (auto simp: CutPrefix_def Let_def split: prod.splits option.splits)

lemma resolve_no_owner: "owner rs n = None \<Longrightarrow> resolve rs n = Inl (CouldNotResolve n)"
proof (induction rs)
  case Nil
  then show ?case by simp
next
  case (Cons r rs)
  then have np: "\<not> prefix (resolverPrefix r) n" and o: "owner rs n = None"
    by (auto simp: owner_def split: if_splits)
  from np have "Resolve r n = None" by (simp add: Resolve_None_iff)
  then show ?case using Cons.IH[OF o] by simp
qed

lemma resolve_owner: "owner rs n = Some r \<Longrightarrow> Resolve r n = Some (resolve rs n)"
proof (induction rs)
  case Nil
  then show ?case by (simp add: owner_def)
next
  case (Cons a rs)
  show ?case
  proof (cases "prefix (resolverPrefix a) n")
    case True
    then have ar: "a = r" using Cons.prems by (simp add: owner_def)
    from True obtain res where "Resolve a n = Some res"
      using Resolve_None_iff[of a n] by (cases "Resolve a n") auto
    then show ?thesis using ar by simp
  next
    case False
    then have "owner rs n = Some r" using Cons.prems by (simp add: owner_def)
    moreover from False have "Resolve a n = None" by (simp add: Resolve_None_iff)
    ultimately show ?thesis using Cons.IH by simp
  qed
qed

lemma owner_prefix: "owner rs n = Some r \<Longrightarrow> prefix (resolverPrefix r) n"
  unfolding owner_def by (induction rs) (auto split: if_splits)

lemma Resolve_abs:
  "prefix (resolverPrefix r) n \<Longrightarrow> IsAbs (Clean (remainder r n)) \<Longrightarrow>
   Resolve r n = Some (Inl (PathNotRelative n))"
  by (cases r) (simp_all add: CutPrefix_def remainder_def Let_def)

lemma Resolve_nonlocal:
  "prefix (resolverPrefix r) n \<Longrightarrow> \<not> IsAbs (Clean (remainder r n)) \<Longrightarrow>
   \<not> IsLocal (Clean (remainder r n)) \<Longrightarrow> Resolve r n = Some (Inl (PathNotLocal n))"
  by (cases r) (simp_all add: CutPrefix_def remainder_def Let_def)

lemma Resolve_handle:
  assumes "Resolve r n = Some (Inr h)"
  shows "handleWithinBase r n h"
proof (cases r)
  case (FileBackedFSResolver name pre baseDir)
  let ?c = "Clean (drop (length pre) n)"
  from assms FileBackedFSResolver
  have c: "\<not> IsAbs ?c" "IsLocal ?c" and h: "h = NewFileBackedFSHandle (Join [baseDir, ?c]) (pre @ ?c) name ?c"
    by (auto simp: CutPrefix_def Let_def split: if_splits)
  have "prefix (pathElems baseDir) (pathElems (Join [baseDir, ?c]))"
    by (rule Join_under_base[OF c])
  then show ?thesis using c h FileBackedFSResolver
    by (simp add: handleWithinBase_def remainder_def NewFileBackedFSHandle_def Clean_idem)
next
  case (MapFSResolver name pre ins)
  let ?sfx = "drop (length pre) n"
  let ?c = "Clean ?sfx"
  obtain base nextPath found where cut: "Cut ?sfx (CHR ''/'') = (base, nextPath, found)"
    by (cases "Cut ?sfx (CHR ''/'')") auto
  from assms MapFSResolver have c: "\<not> IsAbs ?c" "IsLocal ?c"
    by (auto simp: CutPrefix_def Let_def split: if_splits)
  from assms MapFSResolver c cut obtain ri where
    f: "find (\<lambda>ri. Name ri = base) ins = Some ri"
    by (auto simp: CutPrefix_def Let_def split: if_splits option.splits)
  then have ri: "ri \<in> set ins" "Name ri = base"
    by (auto simp: find_Some_iff)
  show ?thesis
  proof (cases found)
    case True
    let ?q = "Clean nextPath"
    from assms MapFSResolver c cut f True
    have q: "Type ri = RPackInputTypeDirectory" "\<not> IsAbs ?q" "IsLocal ?q"
      and h: "h = NewFileBackedFSHandle (Join [ResolvedPath ri, ?q]) (pre @ ?c) name (Join [UserPath ri, ?q])"
      by (auto simp: CutPrefix_def Let_def split: if_splits)
    have "prefix (pathElems (ResolvedPath ri)) (pathElems (Join [ResolvedPath ri, ?q]))"
      by (rule Join_under_base[OF q(2,3)])
    then have "list_ex (\<lambda>ri. Name ri = base \<and>
                 (Type ri = RPackInputTypeDirectory \<and> \<not> IsAbs ?q \<and> IsLocal ?q \<and>
                  absPath h = Join [ResolvedPath ri, ?q] \<and>
                  indirectTargetPath h = Join [UserPath ri, ?q] \<and>
                  prefix (pathElems (ResolvedPath ri)) (pathElems (absPath h)))) ins"
      unfolding list_ex_iff using ri q h by (intro bexI[of _ ri]) (simp_all add: NewFileBackedFSHandle_def)
    then show ?thesis using c h MapFSResolver cut True
      by (simp add: handleWithinBase_def remainder_def NewFileBackedFSHandle_def Clean_idem)
  next
    case False
    from assms MapFSResolver c cut f False
    have h: "h = NewFileBackedFSHandle (ResolvedPath ri) (pre @ ?c) name (UserPath ri)"
      by (auto simp: CutPrefix_def Let_def split: if_splits)
    have "list_ex (\<lambda>ri. Name ri = base \<and> absPath h = ResolvedPath ri \<and>
             indirectTargetPath h = UserPath ri) ins"
      unfolding list_ex_iff using ri h by (intro bexI[of _ ri]) (simp_all add: NewFileBackedFSHandle_def)
    then show ?thesis using c h MapFSResolver cut False
      by (simp add: handleWithinBase_def remainder_def NewFileBackedFSHandle_def Clean_idem)
  qed
qed

lemma FS_ops_unresolved:
  assumes "resolve (Resolvers fs) n = Inl e"
  shows "FS_Read fs os n = (Inl e, fs)" "FS_Write fs os n b = (Some e, fs, os)"
        "FS_Stat fs os n = (Inl e, fs)" "FS_ReadDir ls fs os n = (Inl e, fs)"
  using assms by (simp_all add: FS_Read_def FS_Write_def FS_Stat_def FS_ReadDir_def)

lemma Resolve_not_unresolved: "Resolve r n \<noteq> Some (Inl (CouldNotResolve m))"
  by (cases r) (auto simp: CutPrefix_def Let_def split: prod.splits option.splits if_splits)

lemma resolve_unresolved_iff: "(resolve rs n = Inl (CouldNotResolve n)) = (owner rs n = None)"
proof (cases "owner rs n")
  case None
  then show ?thesis by (simp add: resolve_no_owner)
next
  case (Some r)
  then have "Resolve r n = Some (resolve rs n)" by (rule resolve_owner)
  then have "resolve rs n \<noteq> Inl (CouldNotResolve n)"
    using Resolve_not_unresolved[of r n n] by auto
  then show ?thesis using Some by simp
qed

text \<open>C7. Let \<open>r\<close> be the resolver that owns the name \<open>n\<close>, in any resolver list and so
  for each of the rpack, temp, map and target resolvers. When the remainder of \<open>n\<close>
  after the prefix, once cleaned, is absolute, resolution fails with the needs-to-be-relative
  error; when it is not absolute and not local, with the needs-to-be-local error. Whenever
  resolution fails, read, write, stat and readdir return that error and leave the
  filesystem object and the files on disk as they were. Every handle that resolution
  produces has a cleaned, relative and local remainder below the base of its resolver.\<close>

theorem uniform_path_rules:
  assumes "owner (Resolvers fs) n = Some r"
  shows "(IsAbs (Clean (remainder r n)) \<longrightarrow> resolve (Resolvers fs) n = Inl (PathNotRelative n))
    \<and> (\<not> IsAbs (Clean (remainder r n)) \<and> \<not> IsLocal (Clean (remainder r n)) \<longrightarrow>
          resolve (Resolvers fs) n = Inl (PathNotLocal n))
    \<and> (\<forall>e. resolve (Resolvers fs) n = Inl e \<longrightarrow>
          FS_Read fs os n = (Inl e, fs) \<and> FS_Write fs os n b = (Some e, fs, os) \<and>
          FS_Stat fs os n = (Inl e, fs) \<and> FS_ReadDir ls fs os n = (Inl e, fs))
    \<and> (\<forall>h. resolve (Resolvers fs) n = Inr h \<longrightarrow> handleWithinBase r n h)"
proof -
  have p: "prefix (resolverPrefix r) n" by (rule owner_prefix[OF assms])
  have R: "Resolve r n = Some (resolve (Resolvers fs) n)" by (rule resolve_owner[OF assms])
  have 1: "IsAbs (Clean (remainder r n)) \<longrightarrow> resolve (Resolvers fs) n = Inl (PathNotRelative n)"
    using Resolve_abs[OF p] R by auto
  have 2: "\<not> IsAbs (Clean (remainder r n)) \<and> \<not> IsLocal (Clean (remainder r n)) \<longrightarrow>
          resolve (Resolvers fs) n = Inl (PathNotLocal n)"
    using Resolve_nonlocal[OF p] R by auto
  have 3: "\<forall>e. resolve (Resolvers fs) n = Inl e \<longrightarrow>
          FS_Read fs os n = (Inl e, fs) \<and> FS_Write fs os n b = (Some e, fs, os) \<and>
          FS_Stat fs os n = (Inl e, fs) \<and> FS_ReadDir ls fs os n = (Inl e, fs)"
    using FS_ops_unresolved by blast
  have 4: "\<forall>h. resolve (Resolvers fs) n = Inr h \<longrightarrow> handleWithinBase r n h"
    using Resolve_handle R by auto
  show ?thesis using 1 2 3 4 by (intro conjI)
qed

theorem uniform_path_rules_witness:
  "resolve (Resolvers (NewRPackFS ''/src'' ''/run'' ''/tmp''
       [\<lparr>Name = ''d'', UserPath = ''data'', ResolvedPath = ''/exec/data'', Type = RPackInputTypeDirectory\<rparr>]))
     ''rpack:/etc/passwd'' = Inl (PathNotRelative ''rpack:/etc/passwd'')
   \<and> fst (FS_Write (NewRPackFS ''/src'' ''/run'' ''/tmp''
       [\<lparr>Name = ''d'', UserPath = ''data'', ResolvedPath = ''/exec/data'', Type = RPackInputTypeDirectory\<rparr>])
       (\<lambda>_. Absent) ''rpack:/etc/passwd'' ''x'') = Some (PathNotRelative ''rpack:/etc/passwd'')
   \<and> resolve (Resolvers (NewRPackFS ''/src'' ''/run'' ''/tmp''
       [\<lparr>Name = ''d'', UserPath = ''data'', ResolvedPath = ''/exec/data'', Type = RPackInputTypeDirectory\<rparr>]))
     ''a/../../b'' = Inl (PathNotLocal ''a/../../b'')
   \<and> handleWithinBase
       (MapFSResolver MapResolver MapFSResolverPrefix
         [\<lparr>Name = ''d'', UserPath = ''data'', ResolvedPath = ''/exec/data'', Type = RPackInputTypeDirectory\<rparr>])
       ''map:d/sub/../f''
       \<lparr>absPath = ''/exec/data/f'', friendlyPath = ''map:d/f'', resolver = ''map'',
          indirectTargetPath = ''data/f''\<rparr>"
proof -
  let ?ins = "[\<lparr>Name = ''d'', UserPath = ''data'', ResolvedPath = ''/exec/data'', Type = RPackInputTypeDirectory\<rparr>]"
  let ?fs = "NewRPackFS ''/src'' ''/run'' ''/tmp'' ?ins"
  let ?r1 = "FileBackedFSResolver RPackResolver ''rpack:'' ''/src''"
  let ?r2 = "FileBackedFSResolver TargetResolver [] ''/run''"
  let ?r3 = "MapFSResolver MapResolver MapFSResolverPrefix ?ins"
  have o1: "owner (Resolvers ?fs) ''rpack:/etc/passwd'' = Some ?r1" by code_simp
  have a1: "IsAbs (Clean (remainder ?r1 ''rpack:/etc/passwd''))" by code_simp
  have o2: "owner (Resolvers ?fs) ''a/../../b'' = Some ?r2" by code_simp
  have a2: "\<not> IsAbs (Clean (remainder ?r2 ''a/../../b'')) \<and> \<not> IsLocal (Clean (remainder ?r2 ''a/../../b''))"
    by code_simp
  have o3: "owner (Resolvers ?fs) ''map:d/sub/../f'' = Some ?r3" by code_simp
  have a3: "resolve (Resolvers ?fs) ''map:d/sub/../f'' =
      Inr \<lparr>absPath = ''/exec/data/f'', friendlyPath = ''map:d/f'', resolver = ''map'',
          indirectTargetPath = ''data/f''\<rparr>" by code_simp
  note t1 = uniform_path_rules[OF o1, of "\<lambda>_. Absent" "''x''"]
  note t2 = uniform_path_rules[OF o2]
  note t3 = uniform_path_rules[OF o3]
  have c1: "resolve (Resolvers ?fs) ''rpack:/etc/passwd'' = Inl (PathNotRelative ''rpack:/etc/passwd'')"
    using t1 a1 by (simp only:)
  have c2: "fst (FS_Write ?fs (\<lambda>_. Absent) ''rpack:/etc/passwd'' ''x'') = Some (PathNotRelative ''rpack:/etc/passwd'')"
    using t1 c1 by simp
  have c3: "resolve (Resolvers ?fs) ''a/../../b'' = Inl (PathNotLocal ''a/../../b'')"
    using t2[of "\<lambda>_. Absent" "''x''" "\<lambda>_. None"] a2 by simp
  have c4: "handleWithinBase ?r3 ''map:d/sub/../f''
       \<lparr>absPath = ''/exec/data/f'', friendlyPath = ''map:d/f'', resolver = ''map'',
          indirectTargetPath = ''data/f''\<rparr>"
    using t3 a3 by (simp only:)
  show ?thesis using c1 c2 c3 c4 by (intro conjI)
qed

text \<open>C3, as the code has it. The could-not-resolve error arises exactly when no resolver
  of the list owns the name. The list of \<open>NewRPackFS\<close> ends with the target resolver,
  whose prefix is empty, so every name has an owner there. A name that starts with none
  of \<open>rpack:\<close>, \<open>temp:\<close>, \<open>map:\<close>, whatever other prefix it carries, is owned by the
  target resolver: it resolves to a target handle for the cleaned name below the run
  directory, and fails only when the cleaned name is absolute or not local.\<close>

theorem unknown_prefix_owned_by_target:
  assumes "\<not> prefix ''rpack:'' n" and "\<not> prefix ''temp:'' n" and "\<not> prefix ''map:'' n"
  shows "(resolve rs m = Inl (CouldNotResolve m)) = (owner rs m = None)
    \<and> owner (RPackFS_Resolvers d r t ins) m \<noteq> None
    \<and> owner (RPackFS_Resolvers d r t ins) n = Some (FileBackedFSResolver TargetResolver [] r)
    \<and> resolve (RPackFS_Resolvers d r t ins) n =
         (if IsAbs (Clean n) then Inl (PathNotRelative n)
          else if \<not> IsLocal (Clean n) then Inl (PathNotLocal n)
          else Inr (NewFileBackedFSHandle (Join [r, Clean n]) (Clean n) TargetResolver (Clean n)))"
proof -
  have a: "owner (RPackFS_Resolvers d r t ins) m \<noteq> None"
    by (simp add: owner_def RPackFS_Resolvers_def)
  have b: "owner (RPackFS_Resolvers d r t ins) n = Some (FileBackedFSResolver TargetResolver [] r)"
    using assms by (simp add: owner_def RPackFS_Resolvers_def MapFSResolverPrefix_def)
  have c: "resolve (RPackFS_Resolvers d r t ins) n =
         (if IsAbs (Clean n) then Inl (PathNotRelative n)
          else if \<not> IsLocal (Clean n) then Inl (PathNotLocal n)
          else Inr (NewFileBackedFSHandle (Join [r, Clean n]) (Clean n) TargetResolver (Clean n)))"
    using resolve_owner[OF b] by (auto simp: CutPrefix_def Let_def split: if_splits)
  show ?thesis using resolve_unresolved_iff[of rs m] a b c by (intro conjI)
qed

theorem unknown_prefix_owned_by_target_witness:
  "\<not> prefix ''rpack:'' ''foo:bar'' \<and> \<not> prefix ''temp:'' ''foo:bar'' \<and> \<not> prefix ''map:'' ''foo:bar''
   \<and> resolve (RPackFS_Resolvers ''/src'' ''/run'' ''/tmp'' []) ''foo:bar'' =
       Inr (NewFileBackedFSHandle ''/run/foo:bar'' ''foo:bar'' TargetResolver ''foo:bar'')"
proof -
  have h: "\<not> prefix ''rpack:'' ''foo:bar''" "\<not> prefix ''temp:'' ''foo:bar''" "\<not> prefix ''map:'' ''foo:bar''"
    by simp_all
  have e: "Clean ''foo:bar'' = ''foo:bar''" "\<not> IsAbs ''foo:bar''" "IsLocal ''foo:bar''"
          "Join [''/run'', ''foo:bar''] = ''/run/foo:bar''"
    by code_simp+
  show ?thesis
    using h unknown_prefix_owned_by_target[OF h, of "[]" "[]" "''/src''" "''/run''" "''/tmp''" "[]"]
    by (simp add: e)
qed

text \<open>C3, as stated, fails for \<open>foo:bar\<close>: its location \<open>foo\<close> is none of the known
  ones, yet the name resolves to a target handle and the write succeeds and creates the
  file \<open>foo:bar\<close> in the run directory.\<close>

theorem unknown_prefix_counterexample:
  "fst (luaFilepathLocation ''foo:bar'') = ''foo''
   \<and> resolve (RPackFS_Resolvers ''/src'' ''/run'' ''/tmp'' []) ''foo:bar'' =
       Inr \<lparr>absPath = ''/run/foo:bar'', friendlyPath = ''foo:bar'', resolver = ''target'',
            indirectTargetPath = ''foo:bar''\<rparr>
   \<and> fst (FS_Write (NewRPackFS ''/src'' ''/run'' ''/tmp'' []) (\<lambda>_. Absent) ''foo:bar'' ''x'') = None
   \<and> snd (snd (FS_Write (NewRPackFS ''/src'' ''/run'' ''/tmp'' []) (\<lambda>_. Absent) ''foo:bar'' ''x''))
        ''/run/foo:bar'' = RegFile ''x''"
  by code_simp


subsection \<open>Reading back written lines\<close>

declare Split.simps [simp del]

lemma Split_no_match: "sep \<noteq> [] \<Longrightarrow> Index s sep = None \<Longrightarrow> Split s sep = [s]"
  by (subst Split.simps) simp

lemma Split_match:
  "sep \<noteq> [] \<Longrightarrow> Index s sep = Some m \<Longrightarrow>
   Split s sep = take m s # Split (drop (m + length sep) s) sep"
  by (subst Split.simps) simp

lemma Index_single_None: "(Index l [c] = None) = (c \<notin> set l)"
  by (induction l) auto

lemma Index_LF: "\<not> Contains l LF \<Longrightarrow> Index (l @ LF @ rest) LF = Some (length l)"
  unfolding Contains_def LF_def by (induction l) (auto split: if_splits)

lemma Index_CRLF: "\<not> Contains l CRLF \<Longrightarrow> Index (l @ CRLF @ rest) CRLF = Some (length l)"
proof (induction l)
  case Nil
  then show ?case by (simp add: CRLF_def)
next
  case (Cons x l)
  have np: "\<not> prefix CRLF (x # l)" and nl: "Index l CRLF = None"
    using Cons.prems by (auto simp: Contains_def split: if_splits)
  have np2: "\<not> prefix CRLF (x # l @ CRLF @ rest)"
  proof (cases l)
    case Nil
    then show ?thesis by (simp add: CRLF_def)
  next
    case (Cons y l')
    then show ?thesis using np by (simp add: CRLF_def)
  qed
  have "Index (l @ CRLF @ rest) CRLF = Some (length l)"
    using Cons.IH nl by (simp add: Contains_def)
  then show ?case using np2 by simp
qed

lemma Index_sep:
  "sep = LF \<or> sep = CRLF \<Longrightarrow> \<not> Contains l sep \<Longrightarrow> Index (l @ sep @ rest) sep = Some (length l)"
  using Index_LF Index_CRLF by auto

lemma Split_line:
  assumes "sep = LF \<or> sep = CRLF" and "\<not> Contains l sep"
  shows "Split (l @ sep @ rest) sep = l # Split rest sep"
proof -
  have ne: "sep \<noteq> []" using assms(1) by (auto simp: LF_def CRLF_def)
  have "Index (l @ sep @ rest) sep = Some (length l)" by (rule Index_sep[OF assms])
  then have "Split (l @ sep @ rest) sep =
      take (length l) (l @ sep @ rest) # Split (drop (length l + length sep) (l @ sep @ rest)) sep"
    by (rule Split_match[OF ne])
  then show ?thesis by simp
qed

lemma Split_empty: "sep = LF \<or> sep = CRLF \<Longrightarrow> Split [] sep = [[]]"
  by (rule Split_no_match) (auto simp: LF_def CRLF_def)

lemma Join_Cons: "ls \<noteq> [] \<Longrightarrow> strings_Join (l # ls) sep = l @ sep @ strings_Join ls sep"
  by (cases ls) auto

lemma Split_joined:
  assumes "sep = LF \<or> sep = CRLF"
  shows "lines \<noteq> [] \<Longrightarrow> \<forall>l\<in>set lines. \<not> Contains l sep \<Longrightarrow>
         Split (strings_Join lines sep @ sep) sep = lines @ [[]]"
proof (induction lines)
  case Nil
  then show ?case by simp
next
  case (Cons l ls)
  have nl: "\<not> Contains l sep" using Cons.prems(2) by simp
  show ?case
  proof (cases "ls = []")
    case True
    have "Split (l @ sep @ []) sep = l # Split [] sep" by (rule Split_line[OF assms nl])
    then show ?thesis using True Split_empty[OF assms] by simp
  next
    case False
    have "Split (l @ sep @ (strings_Join ls sep @ sep)) sep = l # Split (strings_Join ls sep @ sep) sep"
      by (rule Split_line[OF assms nl])
    moreover have "Split (strings_Join ls sep @ sep) sep = ls @ [[]]"
      using Cons.IH False Cons.prems(2) by simp
    ultimately show ?thesis using False by (simp add: Join_Cons)
  qed
qed

lemma Index_at_prefix: "prefix sep s \<Longrightarrow> Index s sep = Some 0"
  by (cases s) auto

lemma Contains_suffix: "Contains (x @ sep) sep"
  unfolding Contains_def by (induction x) (auto simp: Index_at_prefix)

lemma no_CRLF_line:
  "CHR 0x0A \<notin> set l \<Longrightarrow> \<not> suffix CR l \<Longrightarrow> Index rest CRLF = None \<Longrightarrow>
   Index (l @ LF @ rest) CRLF = None"
proof (induction l)
  case Nil
  then show ?case by (simp add: LF_def CRLF_def)
next
  case (Cons x l)
  have np: "\<not> prefix CRLF (x # l @ LF @ rest)"
  proof (cases l)
    case Nil
    then show ?thesis using Cons.prems(2) by (auto simp: CRLF_def CR_def LF_def)
  next
    case (Cons y l')
    then show ?thesis using Cons.prems(1) by (auto simp: CRLF_def)
  qed
  have ns: "\<not> suffix CR l"
  proof
    assume "suffix CR l"
    then have "suffix CR (x # l)" by (rule suffix_ConsI)
    then show False using Cons.prems(2) by simp
  qed
  have "Index (l @ LF @ rest) CRLF = None"
    using Cons.IH Cons.prems ns by simp
  then show ?case using np by simp
qed

lemma no_CRLF_joined:
  "\<forall>l\<in>set lines. \<not> Contains l LF \<and> \<not> HasSuffix l CR \<Longrightarrow>
   \<not> Contains (strings_Join lines LF @ LF) CRLF"
proof (induction lines)
  case Nil
  then show ?case by (simp add: Contains_def LF_def CRLF_def)
next
  case (Cons l ls)
  have l: "CHR 0x0A \<notin> set l" "\<not> suffix CR l"
    using Cons.prems by (auto simp: Contains_def LF_def Index_single_None HasSuffix_def)
  show ?case
  proof (cases "ls = []")
    case True
    have "Index (l @ LF @ []) CRLF = None" by (rule no_CRLF_line[OF l]) (simp add: CRLF_def)
    then show ?thesis using True by (simp add: Contains_def)
  next
    case False
    have "Index (strings_Join ls LF @ LF) CRLF = None"
      using Cons.IH Cons.prems by (simp add: Contains_def)
    then have "Index (l @ LF @ (strings_Join ls LF @ LF)) CRLF = None" by (rule no_CRLF_line[OF l])
    then show ?thesis using False by (simp add: Contains_def Join_Cons)
  qed
qed

lemma mem_read_after_write:
  "mem_Write fs name b = (None, fs1) \<Longrightarrow> mem_Read fs1 name = (Inr b, fs1)"
  by (auto simp: mem_Write_def mem_Read_def Let_def split: if_splits option.splits)

lemma lines_read_back:
  assumes "sep = LF \<or> sep = CRLF"
    and "lines \<noteq> []"
    and "\<forall>l\<in>set lines. \<not> Contains l sep"
    and "sep = LF \<longrightarrow> (\<forall>l\<in>set lines. \<not> HasSuffix l CR)"
    and "\<forall>b st'. fsWrite st p b = (None, st') \<longrightarrow> fst (fsRead st' p) = Inr b"
    and "luaWriteLines fmt fsWrite st p (map LString lines) (Some sep) (Some True) = (None, st1)"
  shows "fst (luaReadLines fsRead st1 p) =
           Inr \<lparr>rl_lines = lines, rl_separator = sep, rl_finalNewline = True\<rparr>"
proof -
  let ?content = "strings_Join lines sep @ sep"
  have ml: "map (lv_String fmt \<circ> LString) lines = lines" by (induction lines) auto
  have w: "fsWrite st p ?content = (None, st1)"
    using assms(6) by (auto simp: luaWriteLines_def ml split: prod.splits option.splits)
  then have r: "fst (fsRead st1 p) = Inr ?content" using assms(5) by blast
  have det: "(if Contains ?content CRLF then CRLF else LF) = sep"
  proof (cases "sep = LF")
    case True
    then have "\<forall>l\<in>set lines. \<not> Contains l LF \<and> \<not> HasSuffix l CR" using assms(3,4) by simp
    then have "\<not> Contains (strings_Join lines LF @ LF) CRLF" by (rule no_CRLF_joined)
    then show ?thesis using True by simp
  next
    case False
    then have "sep = CRLF" using assms(1) by simp
    then show ?thesis using Contains_suffix[of "strings_Join lines CRLF" CRLF] by simp
  qed
  have suf: "HasSuffix ?content sep" by (simp add: HasSuffix_def suffix_def)
  have sp: "Split ?content sep = lines @ [[]]" by (rule Split_joined[OF assms(1,2,3)])
  obtain st2 where rd: "fsRead st1 p = (Inr ?content, st2)"
    using r by (cases "fsRead st1 p") auto
  show ?thesis
    unfolding luaReadLines_def rd by (simp add: Let_def det suf sp)
qed

lemma hook_call_fields:
  "Resolvers (snd (hook_call k ty h fs)) = Resolvers fs \<and> Hooks (snd (hook_call k ty h fs)) = Hooks fs"
  by (cases k) simp_all

lemma run_hooks_fields:
  "Resolvers (snd (run_hooks ks ty h fs)) = Resolvers fs \<and> Hooks (snd (run_hooks ks ty h fs)) = Hooks fs"
proof (induction ks arbitrary: fs)
  case Nil
  then show ?case by simp
next
  case (Cons k ks)
  obtain r fs1 where hc: "hook_call k ty h fs = (r, fs1)" by (cases "hook_call k ty h fs")
  have f1: "Resolvers fs1 = Resolvers fs \<and> Hooks fs1 = Hooks fs"
    using hook_call_fields[where k = k and h = h and fs = fs and ty = ty] hc by simp
  show ?case
  proof (cases r)
    case None
    then show ?thesis using hc f1 Cons.IH[of fs1] by simp
  next
    case (Some e)
    then show ?thesis using hc f1 by simp
  qed
qed

lemma run_hooks_read_pass:
  "resolver h \<noteq> TargetResolver \<Longrightarrow> fst (run_hooks ks FSAccessTypeRead h fs) = None"
proof (induction ks arbitrary: fs)
  case Nil
  then show ?case by simp
next
  case (Cons k ks)
  have "fst (hook_call k FSAccessTypeRead h fs) = None"
    using Cons.prems by (cases k) (simp_all add: acl_Read_def)
  then obtain fs1 where "hook_call k FSAccessTypeRead h fs = (None, fs1)"
    by (cases "hook_call k FSAccessTypeRead h fs") simp
  then show ?case using Cons.IH[OF Cons.prems, of fs1] by simp
qed

lemma handle_Write_ok: "handle_Write os h b = (None, os1) \<Longrightarrow> os1 (absPath h) = RegFile b"
  by (auto simp: handle_Write_def os_WriteFile_def split: prod.splits bool.splits os_entry.splits)

lemma rpack_read_after_write:
  assumes "rpack_Write (fs, os) p b = (None, st1)"
    and "resolve (Resolvers fs) p = Inr h" and "resolver h \<noteq> TargetResolver"
  shows "fst (rpack_Read st1 p) = Inr b"
proof -
  obtain r fs1 where rh: "run_hooks (Hooks fs) FSAccessTypeWrite h fs = (r, fs1)"
    by (cases "run_hooks (Hooks fs) FSAccessTypeWrite h fs")
  have rn: "r = None"
    using assms(1,2) rh by (cases r) (simp_all add: rpack_Write_def FS_Write_def)
  obtain w os1 where hw: "handle_Write os h b = (w, os1)" by (cases "handle_Write os h b")
  have w: "w = None" and st1: "st1 = (fs1, os1)"
    using assms(1,2) rh rn hw by (simp_all add: rpack_Write_def FS_Write_def)
  have f1: "Resolvers fs1 = Resolvers fs"
    using run_hooks_fields[where ks = "Hooks fs" and h = h and fs = fs and ty = FSAccessTypeWrite] rh by simp
  have written: "os1 (absPath h) = RegFile b" using hw w handle_Write_ok by simp
  obtain fs2 where rr: "run_hooks (Hooks fs1) FSAccessTypeRead h fs1 = (None, fs2)"
    using run_hooks_read_pass[OF assms(3), of "Hooks fs1" fs1]
    by (cases "run_hooks (Hooks fs1) FSAccessTypeRead h fs1") simp
  have "handle_Read os1 h = Inr b" using written by (simp add: handle_Read_def os_ReadFile_def)
  then show ?thesis
    using st1 f1 assms(2) rr by (simp add: rpack_Read_def FS_Read_def)
qed

text \<open>C8, as the code has it. Take a non-empty list of lines and a separator that is the
  line feed or carriage return plus line feed, such that no line contains the separator
  and, when the separator is the line feed, no line ends with a carriage return. Whenever
  \<open>write_lines(p, lines, sep, true)\<close> succeeds and \<open>p\<close> is a path that the filesystem lets
  the script read as well, \<open>read_lines(p)\<close> returns the lines, the separator and a true
  final newline. On \<open>InMemoryFS\<close> that is every path; on the mediated filesystem it is
  every path that is not resolved by the write-only target resolver, in effect a \<open>temp:\<close>
  path.\<close>

theorem line_roundtrip:
  assumes "sep = LF \<or> sep = CRLF"
    and "lines \<noteq> []"
    and "\<forall>l\<in>set lines. \<not> Contains l sep"
    and "sep = LF \<longrightarrow> (\<forall>l\<in>set lines. \<not> HasSuffix l CR)"
  shows "(luaWriteLines fmt mem_Write m p (map LString lines) (Some sep) (Some True) = (None, m1) \<longrightarrow>
            fst (luaReadLines mem_Read m1 p) =
              Inr \<lparr>rl_lines = lines, rl_separator = sep, rl_finalNewline = True\<rparr>)
       \<and> (luaWriteLines fmt rpack_Write (fs, os) p (map LString lines) (Some sep) (Some True) = (None, st1)
            \<and> resolve (Resolvers fs) p = Inr h \<and> resolver h \<noteq> TargetResolver \<longrightarrow>
            fst (luaReadLines rpack_Read st1 p) =
              Inr \<lparr>rl_lines = lines, rl_separator = sep, rl_finalNewline = True\<rparr>)"
proof (intro conjI impI)
  assume w: "luaWriteLines fmt mem_Write m p (map LString lines) (Some sep) (Some True) = (None, m1)"
  have law: "\<forall>b st'. mem_Write m p b = (None, st') \<longrightarrow> fst (mem_Read st' p) = Inr b"
    by (simp add: mem_read_after_write)
  show "fst (luaReadLines mem_Read m1 p) =
          Inr \<lparr>rl_lines = lines, rl_separator = sep, rl_finalNewline = True\<rparr>"
    by (rule lines_read_back[where fsWrite = mem_Write and fsRead = mem_Read and st = m
          and fmt = fmt, OF assms law w])
next
  assume a: "luaWriteLines fmt rpack_Write (fs, os) p (map LString lines) (Some sep) (Some True) = (None, st1)
            \<and> resolve (Resolvers fs) p = Inr h \<and> resolver h \<noteq> TargetResolver"
  then have w: "luaWriteLines fmt rpack_Write (fs, os) p (map LString lines) (Some sep) (Some True) = (None, st1)"
    and r: "resolve (Resolvers fs) p = Inr h" and nt: "resolver h \<noteq> TargetResolver"
    by simp_all
  have law: "\<forall>b st'. rpack_Write (fs, os) p b = (None, st') \<longrightarrow> fst (rpack_Read st' p) = Inr b"
    using rpack_read_after_write[OF _ r nt] by simp
  show "fst (luaReadLines rpack_Read st1 p) =
          Inr \<lparr>rl_lines = lines, rl_separator = sep, rl_finalNewline = True\<rparr>"
    by (rule lines_read_back[where fsWrite = rpack_Write and fsRead = rpack_Read
          and st = "(fs, os)" and fmt = fmt, OF assms law w])
qed

theorem line_roundtrip_witness:
  "fst (luaReadLines mem_Read
          (snd (luaWriteLines (\<lambda>x::nat. []) mem_Write NewInMemoryFS ''notes''
                  (map LString [''a'', ''b'']) (Some LF) (Some True))) ''notes'') =
     Inr \<lparr>rl_lines = [''a'', ''b''], rl_separator = LF, rl_finalNewline = True\<rparr>
   \<and> fst (luaReadLines rpack_Read
          (snd (luaWriteLines (\<lambda>x::nat. []) rpack_Write
                  (NewRPackFS ''/src'' ''/run'' ''/tmp'' [], (\<lambda>_. Absent)) ''temp:out''
                  (map LString [''a'', ''b'']) (Some LF) (Some True))) ''temp:out'') =
     Inr \<lparr>rl_lines = [''a'', ''b''], rl_separator = LF, rl_finalNewline = True\<rparr>"
proof -
  let ?fs = "NewRPackFS ''/src'' ''/run'' ''/tmp'' []"
  let ?os = "(\<lambda>_. Absent) :: os_state"
  let ?h = "\<lparr>absPath = ''/tmp/out'', friendlyPath = ''temp:out'', resolver = ''temp'',
             indirectTargetPath = ''out''\<rparr>"
  let ?w = "luaWriteLines (\<lambda>x::nat. []) mem_Write NewInMemoryFS ''notes''
                  (map LString [''a'', ''b'']) (Some LF) (Some True)"
  let ?v = "luaWriteLines (\<lambda>x::nat. []) rpack_Write (?fs, ?os) ''temp:out''
                  (map LString [''a'', ''b'']) (Some LF) (Some True)"
  have 1: "LF = LF \<or> LF = CRLF" by simp
  have 2: "[''a'', ''b''] \<noteq> []" by simp
  have 3: "\<forall>l\<in>set [''a'', ''b'']. \<not> Contains l LF" by (simp add: Contains_def LF_def)
  have 4: "LF = LF \<longrightarrow> (\<forall>l\<in>set [''a'', ''b'']. \<not> HasSuffix l CR)"
    by (simp add: HasSuffix_def CR_def suffix_def)
  have 6: "?w = (None, snd ?w)"
    by (simp add: luaWriteLines_def mem_Write_def NewInMemoryFS_def Let_def)
  have 7: "fst ?v = None" by code_simp
  then have 8: "?v = (None, snd ?v)" by (cases ?v) simp
  have 9: "resolve (Resolvers ?fs) ''temp:out'' = Inr ?h" by code_simp
  have 10: "resolver ?h \<noteq> TargetResolver" by code_simp
  note T = line_roundtrip[where sep = LF and lines = "[''a'', ''b'']" and fmt = "\<lambda>x::nat. []"
        and m = NewInMemoryFS and p = "''notes''" and ?m1.0 = "snd ?w", OF 1 2 3 4]
  note U = line_roundtrip[where sep = LF and lines = "[''a'', ''b'']" and fmt = "\<lambda>x::nat. []"
        and fs = ?fs and os = ?os and p = "''temp:out''" and ?st1.0 = "snd ?v" and h = ?h,
        OF 1 2 3 4]
  have a: "fst (luaReadLines mem_Read (snd ?w) ''notes'') =
     Inr \<lparr>rl_lines = [''a'', ''b''], rl_separator = LF, rl_finalNewline = True\<rparr>"
    using T[THEN conjunct1, THEN mp, OF 6] .
  have b: "fst (luaReadLines rpack_Read (snd ?v) ''temp:out'') =
     Inr \<lparr>rl_lines = [''a'', ''b''], rl_separator = LF, rl_finalNewline = True\<rparr>"
    using U[THEN conjunct2, THEN mp, OF conjI[OF 8 conjI[OF 9 10]]] .
  show ?thesis using a b by (rule conjI)
qed

text \<open>C8, as stated, fails three times. The empty list is written as one separator and
  read back as the list with one empty line. The line \<open>a\<close> followed by a carriage return
  does not contain the line feed, yet written with the line-feed separator it is read
  back as the line \<open>a\<close> with the separator carriage return plus line feed. And on the
  mediated filesystem \<open>write_lines\<close> to the target path \<open>out.txt\<close> succeeds while
  \<open>read_lines\<close> of the same path is refused by the access-control hook.\<close>

theorem line_roundtrip_counterexample:
  "fst (luaReadLines mem_Read
          (snd (luaWriteLines (\<lambda>x::nat. []) mem_Write NewInMemoryFS ''temp:out''
                  (map LString []) (Some LF) (Some True))) ''temp:out'') =
     Inr \<lparr>rl_lines = [[]], rl_separator = LF, rl_finalNewline = True\<rparr>
   \<and> \<not> Contains [CHR ''a'', CHR 0x0D] LF
   \<and> fst (luaReadLines mem_Read
          (snd (luaWriteLines (\<lambda>x::nat. []) mem_Write NewInMemoryFS ''temp:out''
                  (map LString [[CHR ''a'', CHR 0x0D]]) (Some LF) (Some True))) ''temp:out'') =
     Inr \<lparr>rl_lines = [''a''], rl_separator = CRLF, rl_finalNewline = True\<rparr>
   \<and> fst (luaWriteLines (\<lambda>x::nat. []) rpack_Write
            (NewRPackFS ''/src'' ''/run'' ''/tmp'' [], (\<lambda>_. Absent)) ''out.txt''
            (map LString [''a'', ''b'']) (Some LF) (Some True)) = None
   \<and> fst (luaReadLines rpack_Read
          (snd (luaWriteLines (\<lambda>x::nat. []) rpack_Write
                  (NewRPackFS ''/src'' ''/run'' ''/tmp'' [], (\<lambda>_. Absent)) ''out.txt''
                  (map LString [''a'', ''b'']) (Some LF) (Some True))) ''out.txt'') =
     Inl (LuaArgErrorOf 1 (AccessDenied (''Not allowed to read out.txt'' @
            '' (no access to read from target directory, use 'rpack:' instead)'')))"
  by code_simp

subsection \<open>The purity gate\<close>

















end
